theory Spec2Isabelle
  imports Complex_Main "HOL-Library.Word" "HOL-Library.Sublist"
begin

section \<open>Data model of \<^verbatim>\<open>es-app/src/SystemData.cpp\<close>\<close>

text \<open>
  The development embeds the system-catalogue loader of EmulationStation
  (\<^verbatim>\<open>SystemData.cpp\<close>, non-Windows build) as HOL functions.  Calls into code outside
  that file (the settings store, pugixml, Boost.Filesystem, \<^verbatim>\<open>FileData\<close>, the gamelist
  parser, the collection manager, \<^verbatim>\<open>std::rand\<close>) appear as explicit arguments or as
  fields of the record \<open>world\<close>, so every function below is a pure function of what the
  C++ reads.  Exceptions and undefined behaviour are values of \<open>cpp_error\<close>.
\<close>

datatype cpp_error =
    out_of_range            \<comment> \<open>\<^verbatim>\<open>std::out_of_range\<close> from \<^verbatim>\<open>substr\<close> or \<^verbatim>\<open>at\<close>\<close>
  | missing_return          \<comment> \<open>control flows off the end of a non-void function\<close>
  | float_to_int_overflow   \<comment> \<open>a \<^verbatim>\<open>double\<close> converted to an \<^verbatim>\<open>int\<close> that cannot hold it\<close>

subsection \<open>\<^verbatim>\<open>std::string\<close> searching on a 64-bit \<^verbatim>\<open>size_t\<close>\<close>

type_synonym size_t = "64 word"

definition npos :: size_t where
  "npos = - 1"

definition str_size :: "string \<Rightarrow> size_t" where
  "str_size s = of_nat (length s)"

lemma size_t_step: "pos < (n :: size_t) \<Longrightarrow> unat (n - (pos + 1)) < unat (n - pos)"
  by unat_arith

text \<open>
  \<^verbatim>\<open>find_first_of(delims, pos)\<close> and \<^verbatim>\<open>find_first_not_of(delims, pos)\<close>: the scan
  \<^verbatim>\<open>for (; pos < size(); ++pos)\<close> of the standard library, returning the first position
  whose character is (is not) one of \<open>delims\<close>, and \<open>npos\<close> when there is none.
  \<open>delims\<close> holds the characters of the NUL-terminated array passed in.
\<close>

function find_first_of :: "string \<Rightarrow> string \<Rightarrow> size_t \<Rightarrow> size_t" where
  "find_first_of str delims pos =
     (if pos < str_size str
      then (if str ! unat pos \<in> set delims then pos
            else find_first_of str delims (pos + 1))
      else npos)"
  by pat_completeness auto
termination
  by (relation "measure (\<lambda>(str, delims, pos). unat (str_size str - pos))")
     (simp_all add: size_t_step)

function find_first_not_of :: "string \<Rightarrow> string \<Rightarrow> size_t \<Rightarrow> size_t" where
  "find_first_not_of str delims pos =
     (if pos < str_size str
      then (if str ! unat pos \<notin> set delims then pos
            else find_first_not_of str delims (pos + 1))
      else npos)"
  by pat_completeness auto
termination
  by (relation "measure (\<lambda>(str, delims, pos). unat (str_size str - pos))")
     (simp_all add: size_t_step)

declare find_first_of.simps [simp del] find_first_not_of.simps [simp del]

text \<open>
  \<^verbatim>\<open>substr(pos, n)\<close> throws when \<open>pos\<close> lies beyond the end and otherwise copies
  \<open>min n (size - pos)\<close> characters.
\<close>

definition substr :: "string \<Rightarrow> size_t \<Rightarrow> size_t \<Rightarrow> cpp_error + string" where
  "substr str pos n =
     (if str_size str < pos then Inl out_of_range
      else Inr (take (unat (min n (str_size str - pos))) (drop (unat pos) str)))"

lemma find_first_of_range:
  "find_first_of str delims pos = npos \<or>
   (pos \<le> find_first_of str delims pos \<and> find_first_of str delims pos < str_size str
    \<and> str ! unat (find_first_of str delims pos) \<in> set delims)"
proof (induction str delims pos rule: find_first_of.induct)
  case (1 str delims pos)
  show ?case
  proof (cases "pos < str_size str")
    case False
    then show ?thesis by (subst find_first_of.simps) simp
  next
    case True
    note lt = this
    show ?thesis
    proof (cases "str ! unat pos \<in> set delims")
      case True
      with lt have "find_first_of str delims pos = pos"
        by (subst find_first_of.simps) simp
      with lt True show ?thesis by simp
    next
      case False
      have le: "pos \<le> pos + 1" using lt by unat_arith
      from lt False have eq: "find_first_of str delims pos = find_first_of str delims (pos + 1)"
        by (subst find_first_of.simps) simp
      from 1 [OF lt False] le show ?thesis
        unfolding eq by auto
    qed
  qed
qed

lemma find_first_not_of_range:
  "find_first_not_of str delims pos = npos \<or>
   (pos \<le> find_first_not_of str delims pos \<and> find_first_not_of str delims pos < str_size str
    \<and> str ! unat (find_first_not_of str delims pos) \<notin> set delims)"
proof (induction str delims pos rule: find_first_not_of.induct)
  case (1 str delims pos)
  show ?case
  proof (cases "pos < str_size str")
    case False
    then show ?thesis by (subst find_first_not_of.simps) simp
  next
    case True
    note lt = this
    show ?thesis
    proof (cases "str ! unat pos \<notin> set delims")
      case True
      with lt have "find_first_not_of str delims pos = pos"
        by (subst find_first_not_of.simps) simp
      with lt True show ?thesis by simp
    next
      case False
      have le: "pos \<le> pos + 1" using lt by unat_arith
      from lt False have eq: "find_first_not_of str delims pos = find_first_not_of str delims (pos + 1)"
        by (subst find_first_not_of.simps) simp
      from 1 [OF lt] False le show ?thesis
        unfolding eq by auto
    qed
  qed
qed

text \<open>
  The measure that decreases along the loop of \<^verbatim>\<open>readList\<close>, and the facts about the
  two searches that its termination proof needs.
\<close>

definition readList_measure :: "string \<Rightarrow> size_t \<Rightarrow> size_t \<Rightarrow> nat" where
  "readList_measure str prevOff off =
     (if off = npos then (if prevOff = npos then 0 else 1)
      else 2 + (unat (str_size str) - unat off))"

lemma find_at_npos:
  "find_first_of str delims npos = npos" "find_first_not_of str delims npos = npos"
proof -
  have top: "\<not> npos < str_size str" by (simp add: npos_def)
  show "find_first_of str delims npos = npos"
    by (subst find_first_of.simps) (simp add: top)
  show "find_first_not_of str delims npos = npos"
    by (subst find_first_not_of.simps) (simp add: top)
qed

lemma readList_progress:
  assumes "off \<noteq> npos \<or> prevOff \<noteq> npos"
  shows "readList_measure str (find_first_not_of str delims off)
           (find_first_of str delims (find_first_not_of str delims off))
         < readList_measure str prevOff off"
proof (cases "off = npos")
  case True
  with assms show ?thesis by (simp add: readList_measure_def find_at_npos)
next
  case False
  define p where "p = find_first_not_of str delims off"
  define q where "q = find_first_of str delims p"
  show ?thesis
  proof (cases "q = npos")
    case True
    with False show ?thesis
      unfolding p_def [symmetric] q_def [symmetric] by (simp add: readList_measure_def)
  next
    case qn: False
    then have pn: "p \<noteq> npos" by (auto simp: q_def find_at_npos)
    from pn find_first_not_of_range [of str delims off]
    have p: "off \<le> p" "p < str_size str" "str ! unat p \<notin> set delims"
      by (auto simp: p_def)
    from qn find_first_of_range [of str delims p]
    have q: "p \<le> q" "q < str_size str" "str ! unat q \<in> set delims"
      by (auto simp: q_def)
    from p(3) q(3) have "p \<noteq> q" by auto
    with p(1) q(1) have "off < q" by auto
    with q(2) have "unat (str_size str) - unat q < unat (str_size str) - unat off"
      by unat_arith
    with False qn show ?thesis
      unfolding p_def [symmetric] q_def [symmetric] by (simp add: readList_measure_def)
  qed
qed

text \<open>
  The loop of \<^verbatim>\<open>readList\<close>: \<open>prevOff\<close> is the start of the pending token, \<open>off\<close> the
  position of the delimiter that ends it.  \<open>off - prevOff\<close> is computed on \<open>size_t\<close>,
  so it wraps around when \<open>off\<close> is \<open>npos\<close>.
\<close>

function readList_loop ::
  "string \<Rightarrow> string \<Rightarrow> size_t \<Rightarrow> size_t \<Rightarrow> string list \<Rightarrow> cpp_error + string list" where
  "readList_loop str delims prevOff off ret =
     (if off \<noteq> npos \<or> prevOff \<noteq> npos
      then (case substr str prevOff (off - prevOff) of
              Inl e \<Rightarrow> Inl e
            | Inr tok \<Rightarrow>
                (let prevOff' = find_first_not_of str delims off;
                     off' = find_first_of str delims prevOff'
                 in readList_loop str delims prevOff' off' (ret @ [tok])))
      else Inr ret)"
  by pat_completeness auto
termination
  apply (relation "measure (\<lambda>(str, delims, prevOff, off, ret). readList_measure str prevOff off)")
   apply simp
  apply (simp add: readList_progress)
  done

declare readList_loop.simps [simp del]

definition readList :: "string \<Rightarrow> string \<Rightarrow> cpp_error + string list" where
  "readList str delims =
     (let prevOff = find_first_not_of str delims 0;
          off = find_first_of str delims prevOff
      in readList_loop str delims prevOff off [])"

text \<open>The default argument \<^verbatim>\<open>" \t\r\n,"\<close> of \<^verbatim>\<open>readList\<close>.\<close>

definition readList_default_delims :: string where
  "readList_default_delims = [CHR '' '', CHR 0x09, CHR 0x0D, CHR 0x0A, CHR '','']"

subsection \<open>Paths (Boost.Filesystem on generic POSIX paths)\<close>

text \<open>
  A \<^verbatim>\<open>fs::path\<close> is its string; \<^verbatim>\<open>generic_string()\<close> is the identity on a POSIX
  build.  \<open>filename\<close> is the part after the last separator.  \<open>extension\<close> and \<open>stem\<close>
  are those of Boost.Filesystem version 3, the library the code was written against:
  if the filename contains a period and is not \<^verbatim>\<open>.\<close> or \<^verbatim>\<open>..\<close>, the extension is the
  substring that starts at its last period and the stem is what stands before that
  period; otherwise the extension is empty and the stem is the filename.  So the stem
  of \<^verbatim>\<open>mario.nes\<close> is \<^verbatim>\<open>mario\<close>, and the stem of \<^verbatim>\<open>.cache\<close>, whose last period is its
  first character, is empty.  \<open>path_append\<close> is \<^verbatim>\<open>operator/\<close>.
\<close>

definition filename :: "string \<Rightarrow> string" where
  "filename p = rev (takeWhile (\<lambda>c. c \<noteq> CHR ''/'') (rev p))"

definition extension :: "string \<Rightarrow> string" where
  "extension p =
     (let name = filename p in
      if name = ''.'' \<or> name = ''..'' \<or> CHR ''.'' \<notin> set name then []
      else CHR ''.'' # rev (takeWhile (\<lambda>c. c \<noteq> CHR ''.'') (rev name)))"

definition stem :: "string \<Rightarrow> string" where
  "stem p =
     (let name = filename p in
      if name = ''.'' \<or> name = ''..'' \<or> CHR ''.'' \<notin> set name then name
      else rev (tl (dropWhile (\<lambda>c. c \<noteq> CHR ''.'') (rev name))))"

definition path_append :: "string \<Rightarrow> string \<Rightarrow> string" where
  "path_append p q =
     (if q = [] then p
      else if hd q = CHR ''/'' then p @ q
      else if p \<noteq> [] \<and> last p \<noteq> CHR ''/'' then p @ ''/'' @ q
      else p @ q)"

text \<open>\<^verbatim>\<open>isHidden\<close>: \<^verbatim>\<open>fileName[0] == '.'\<close> (the NUL at index 0 of an empty name is no dot).\<close>

definition isHidden :: "string \<Rightarrow> bool" where
  "isHidden filePath =
     (let fileName = filename filePath in
      case fileName of [] \<Rightarrow> False | c # _ \<Rightarrow> c = CHR ''.'')"

subsection \<open>The file tree\<close>

datatype FileType = GAME | FOLDER

datatype FileData = FileData (getType: FileType) (getPath: string) (getChildren: "FileData list")

text \<open>
  Modelled from the spec: \<^verbatim>\<open>FileData\<close> is declared outside \<^verbatim>\<open>SystemData.cpp\<close>.  A node
  has a type, a path and an ordered list of children; \<^verbatim>\<open>addChild\<close> appends one child,
  and \<^verbatim>\<open>getChildrenByFilename().size() == 0\<close> is \<open>getChildren f = []\<close>.
\<close>

definition addChild :: "FileData \<Rightarrow> FileData \<Rightarrow> FileData" where
  "addChild folder file = FileData (getType folder) (getPath folder) (getChildren folder @ [file])"

text \<open>
  Modelled from the spec: \<^verbatim>\<open>FileData::getFilesRecursive(typeMask, displayedOnly)\<close> is
  defined outside \<^verbatim>\<open>SystemData.cpp\<close>.  It is the recursive file list of a folder: every
  descendant of the given type, in tree order, and with \<open>displayedOnly\<close> only those that
  the filter index shows (\<open>shown\<close>).
\<close>

fun getFilesRecursive :: "(FileData \<Rightarrow> bool) \<Rightarrow> FileType \<Rightarrow> bool \<Rightarrow> FileData \<Rightarrow> FileData list" where
  "getFilesRecursive shown typeMask displayedOnly (FileData t p children) =
     concat (map (\<lambda>c. (if getType c = typeMask \<and> (\<not> displayedOnly \<or> shown c) then [c] else [])
                        @ getFilesRecursive shown typeMask displayedOnly c) children)"

subsection \<open>The directory tree that \<^verbatim>\<open>populateFolder\<close> walks\<close>

text \<open>
  What a path resolves to: nothing, something that is not a directory, or a directory
  with the entries its \<^verbatim>\<open>directory_iterator\<close> yields, each with the path
  \<^verbatim>\<open>(*dir).path()\<close> and what that path resolves to.  A directory reached through a
  symbolic link carries the string of its canonical path
  (\<^verbatim>\<open>fs::canonical(folderPath).generic_string()\<close>).  A value of this type is the finite
  part of the file system that a scan gets to see, links followed.
\<close>

datatype fsnode =
    Missing
  | RegularFile
  | Directory (symlink_canonical: "string option") (dir_entries: "(string \<times> fsnode) list")

definition is_directory :: "fsnode \<Rightarrow> bool" where
  "is_directory node = (case node of Directory _ _ \<Rightarrow> True | _ \<Rightarrow> False)"

datatype PlatformId = PLATFORM_UNKNOWN | PLATFORM_IGNORE | PLATFORM_ID nat

record SystemEnvironmentData =
  mStartPath :: string
  mSearchExtensions :: "string list"
  mLaunchCommand :: string
  mPlatformIds :: "PlatformId list"

text \<open>
  \<^verbatim>\<open>SystemData::populateFolder\<close>.  \<open>showHidden\<close> is the setting \<^verbatim>\<open>ShowHiddenFiles\<close>,
  \<open>node\<close> what \<^verbatim>\<open>folder->getPath()\<close> resolves to.  \<^verbatim>\<open>folderStr.find(canonical) == 0\<close>
  says that the canonical path is a prefix of the folder's path.  The second function is
  the \<^verbatim>\<open>for\<close> loop over the directory entries; its \<^verbatim>\<open>continue\<close> statements are the
  branches that leave \<open>folder\<close> as it is.
\<close>

fun populateFolder :: "bool \<Rightarrow> SystemEnvironmentData \<Rightarrow> fsnode \<Rightarrow> FileData \<Rightarrow> FileData"
  and populateFolder_loop ::
    "bool \<Rightarrow> SystemEnvironmentData \<Rightarrow> (string \<times> fsnode) list \<Rightarrow> FileData \<Rightarrow> FileData" where
  "populateFolder showHidden mEnvData Missing folder = folder"
| "populateFolder showHidden mEnvData RegularFile folder = folder"
| "populateFolder showHidden mEnvData (Directory canonical entries) folder =
     (if (case canonical of None \<Rightarrow> False | Some c \<Rightarrow> prefix c (getPath folder))
      then folder
      else populateFolder_loop showHidden mEnvData entries folder)"
| "populateFolder_loop showHidden mEnvData [] folder = folder"
| "populateFolder_loop showHidden mEnvData ((filePath, node) # rest) folder =
     (if stem filePath = [] then populateFolder_loop showHidden mEnvData rest folder
      else if extension filePath \<in> set (mSearchExtensions mEnvData)
      then (if \<not> showHidden \<and> isHidden filePath
            then populateFolder_loop showHidden mEnvData rest folder
            else populateFolder_loop showHidden mEnvData rest
                   (addChild folder (FileData GAME filePath [])))
      else if is_directory node
      then (let newFolder = populateFolder showHidden mEnvData node (FileData FOLDER filePath [])
            in if getChildren newFolder = []
               then populateFolder_loop showHidden mEnvData rest folder
               else populateFolder_loop showHidden mEnvData rest (addChild folder newFolder))
      else populateFolder_loop showHidden mEnvData rest folder)"

subsection \<open>Systems and the environment of the loader\<close>

record SystemData =
  mName :: string
  mFullName :: string
  mEnvData :: SystemEnvironmentData
  mThemeFolder :: string
  mIsCollectionSystem :: bool
  mIsGameSystem :: bool
  mRootFolder :: FileData

text \<open>
  One \<^verbatim>\<open><system>\<close> element of \<^verbatim>\<open>es_systems.cfg\<close> as pugixml presents it:
  \<^verbatim>\<open>child(tag).text().get()\<close> is the empty string when the child is absent, and
  \<^verbatim>\<open>text().as_string(def)\<close> is \<open>def\<close> then.  A parsed document either has a
  \<^verbatim>\<open><systemList>\<close> child with its \<^verbatim>\<open><system>\<close> children in order, or has none.
\<close>

record system_node =
  node_name :: string
  node_fullname :: string
  node_path :: string
  node_extension :: string
  node_command :: string
  node_platform :: string
  node_theme :: "string option"

datatype xml_document = xml_document (systemList: "system_node list option")

text \<open>
  Everything \<^verbatim>\<open>SystemData.cpp\<close> reads from outside itself: three settings, the home
  path, the file system (\<open>fs_status p\<close> is what the path \<open>p\<close> resolves to), the
  Boost call \<^verbatim>\<open>parent_path\<close>, \<^verbatim>\<open>ThemeData::getThemeFromCurrentSet\<close>,
  \<^verbatim>\<open>parseGamelist\<close> and \<^verbatim>\<open>FileData::sort\<close> (both work on the file tree of the system
  and are given by the root folder they leave behind), the table
  \<^verbatim>\<open>FileSorts::SortTypes\<close> (its entries by their description),
  \<^verbatim>\<open>PlatformIds::getPlatformId\<close>, pugixml's \<^verbatim>\<open>load_file\<close> (\<open>None\<close> when parsing
  fails), \<^verbatim>\<open>CollectionSystemManager::loadCollectionSystems\<close>, which is called on the
  static system vector and may change it, and the operating system's consent to creating
  a file at a path whose directory exists (access rights, free space).
\<close>

record world =
  ParseGamelistOnly :: bool
  IgnoreGamelist :: bool
  ShowHiddenFiles :: bool
  getHomePath :: string
  fs_status :: "string \<Rightarrow> fsnode"
  parent_path :: "string \<Rightarrow> string"
  getThemeFromCurrentSet :: "string \<Rightarrow> string"
  parseGamelist :: "SystemData \<Rightarrow> FileData"
  sort_FileData :: "string \<Rightarrow> FileData \<Rightarrow> FileData"
  SortTypes :: "string list"
  getPlatformId :: "string \<Rightarrow> PlatformId"
  load_file :: "string \<Rightarrow> xml_document option"
  loadCollectionSystems :: "SystemData list \<Rightarrow> SystemData list"
  may_create :: "string \<Rightarrow> bool"

definition fs_exists :: "world \<Rightarrow> string \<Rightarrow> bool" where
  "fs_exists w p = (fs_status w p \<noteq> Missing)"

definition setIsGameSystemStatus :: "SystemData \<Rightarrow> SystemData" where
  "setIsGameSystemStatus this = this\<lparr>mIsGameSystem := (mName this \<noteq> ''retropie'')\<rparr>"

text \<open>
  The constructor \<^verbatim>\<open>SystemData::SystemData\<close>.  Besides the system it returns the list
  of the steps it ran on the root folder, in order.  \<^verbatim>\<open>SortTypes.at(0)\<close> throws on an
  empty table.  The theme object (\<^verbatim>\<open>loadTheme\<close>), the filter index and the metadata of
  the root folder are not part of the model.
\<close>

datatype ctor_step = ran_populateFolder | ran_parseGamelist | ran_sort string

definition SystemData_ctor ::
  "world \<Rightarrow> string \<Rightarrow> string \<Rightarrow> SystemEnvironmentData \<Rightarrow> string \<Rightarrow> bool
     \<Rightarrow> cpp_error + (SystemData \<times> ctor_step list)" where
  "SystemData_ctor w name fullName envData themeFolder CollectionSystem =
     (if \<not> CollectionSystem
      then
        (let this0 = \<lparr>mName = name, mFullName = fullName, mEnvData = envData,
                       mThemeFolder = themeFolder, mIsCollectionSystem = CollectionSystem,
                       mIsGameSystem = True,
                       mRootFolder = FileData FOLDER (mStartPath envData) []\<rparr>;
             (this1, steps1) =
               (if \<not> ParseGamelistOnly w
                then (this0\<lparr>mRootFolder :=
                        populateFolder (ShowHiddenFiles w) (mEnvData this0)
                          (fs_status w (getPath (mRootFolder this0))) (mRootFolder this0)\<rparr>,
                      [ran_populateFolder])
                else (this0, []));
             (this2, steps2) =
               (if \<not> IgnoreGamelist w
                then (this1\<lparr>mRootFolder := parseGamelist w this1\<rparr>,
                      steps1 @ [ran_parseGamelist])
                else (this1, steps1))
         in case SortTypes w of
              [] \<Rightarrow> Inl out_of_range
            | sortType # _ \<Rightarrow>
                Inr (setIsGameSystemStatus
                       (this2\<lparr>mRootFolder := sort_FileData w sortType (mRootFolder this2)\<rparr>),
                     steps2 @ [ran_sort sortType]))
      else
        Inr (setIsGameSystemStatus
               \<lparr>mName = name, mFullName = fullName, mEnvData = envData,
                mThemeFolder = themeFolder, mIsCollectionSystem = CollectionSystem,
                mIsGameSystem = True,
                mRootFolder = FileData FOLDER ('''' @ name) []\<rparr>,
             []))"

subsection \<open>\<^verbatim>\<open>SystemData::loadConfig\<close>\<close>

definition getConfigPath :: "world \<Rightarrow> bool \<Rightarrow> string" where
  "getConfigPath w forWrite =
     (let path = getHomePath w @ ''/.emulationstation/es_systems.cfg''
      in if forWrite \<or> fs_exists w path then path
         else ''/etc/emulationstation/es_systems.cfg'')"

text \<open>The loop over the platform names of one system.\<close>

fun platform_loop :: "world \<Rightarrow> string list \<Rightarrow> PlatformId list \<Rightarrow> PlatformId list" where
  "platform_loop w [] platformIds = platformIds"
| "platform_loop w (str # rest) platformIds =
     (let platformId = getPlatformId w str
      in if platformId = PLATFORM_IGNORE then [platformId]
         else if str \<noteq> [] \<and> platformId = PLATFORM_UNKNOWN
         then platform_loop w rest platformIds
         else if platformId \<noteq> PLATFORM_UNKNOWN
         then platform_loop w rest (platformIds @ [platformId])
         else platform_loop w rest platformIds)"

text \<open>\<^verbatim>\<open>if(path[0] == '~') { path.erase(0, 1); path.insert(0, getHomePath()); }\<close>\<close>

definition expand_home :: "world \<Rightarrow> string \<Rightarrow> string" where
  "expand_home w path =
     (case path of
        [] \<Rightarrow> path
      | c # rest \<Rightarrow> if c = CHR ''~'' then getHomePath w @ rest else path)"

text \<open>
  The loop over the \<^verbatim>\<open><system>\<close> elements.  \<open>sSystemVector\<close> is the static vector; a
  system is pushed at its end.  An exception of \<^verbatim>\<open>readList\<close> or of the constructor
  leaves the loop.
\<close>

fun loadConfig_loop ::
  "world \<Rightarrow> system_node list \<Rightarrow> SystemData list \<Rightarrow> cpp_error + SystemData list" where
  "loadConfig_loop w [] sSystemVector = Inr sSystemVector"
| "loadConfig_loop w (system # rest) sSystemVector =
     (let name = node_name system;
          fullname = node_fullname system;
          path = node_path system
      in case readList (node_extension system) readList_default_delims of
           Inl e \<Rightarrow> Inl e
         | Inr extensions \<Rightarrow>
            (let cmd = node_command system
             in case readList (node_platform system) readList_default_delims of
                  Inl e \<Rightarrow> Inl e
                | Inr platformStrs \<Rightarrow>
                   (let platformIds = platform_loop w platformStrs [];
                        themeFolder = (case node_theme system of None \<Rightarrow> name | Some t \<Rightarrow> t)
                    in if name = [] \<or> path = [] \<or> extensions = [] \<or> cmd = []
                       then loadConfig_loop w rest sSystemVector
                       else
                         (let envData = \<lparr>mStartPath = expand_home w path,
                                          mSearchExtensions = extensions,
                                          mLaunchCommand = cmd,
                                          mPlatformIds = platformIds\<rparr>
                          in case SystemData_ctor w name fullname envData themeFolder False of
                               Inl e \<Rightarrow> Inl e
                             | Inr (newSys, steps) \<Rightarrow>
                                 if getChildren (mRootFolder newSys) = []
                                 then loadConfig_loop w rest sSystemVector
                                 else loadConfig_loop w rest (sSystemVector @ [newSys])))))"

text \<open>
  The test of line 244 on one \<^verbatim>\<open><system>\<close> element, and the system that lines 251 to 268
  construct from it.
\<close>

definition entry_missing_field :: "system_node \<Rightarrow> bool" where
  "entry_missing_field system =
     (node_name system = [] \<or> node_path system = []
      \<or> readList (node_extension system) readList_default_delims = Inr []
      \<or> node_command system = [])"

definition entry_system ::
  "world \<Rightarrow> system_node \<Rightarrow> cpp_error + (SystemData \<times> ctor_step list)" where
  "entry_system w system =
     (case readList (node_extension system) readList_default_delims of
        Inl e \<Rightarrow> Inl e
      | Inr extensions \<Rightarrow>
         (case readList (node_platform system) readList_default_delims of
            Inl e \<Rightarrow> Inl e
          | Inr platformStrs \<Rightarrow>
              SystemData_ctor w (node_name system) (node_fullname system)
                \<lparr>mStartPath = expand_home w (node_path system),
                 mSearchExtensions = extensions,
                 mLaunchCommand = node_command system,
                 mPlatformIds = platform_loop w platformStrs []\<rparr>
                (case node_theme system of None \<Rightarrow> node_name system | Some t \<Rightarrow> t)
                False))"

subsection \<open>\<^verbatim>\<open>SystemData::writeExampleConfig\<close>\<close>

text \<open>
  \<^verbatim>\<open>std::ofstream file(path.c_str())\<close> opens the file for writing and creates it.  The
  file opens when the directory of the path exists, the path does not name a directory
  and the operating system consents.  \<^verbatim>\<open>writeExampleConfig\<close> does not test the stream:
  on a stream that did not open, \<^verbatim>\<open><<\<close> and \<^verbatim>\<open>close\<close> do nothing, and no file is
  created.
\<close>

definition directory_of :: "string \<Rightarrow> string" where
  "directory_of path =
     (let r = dropWhile (\<lambda>c. c \<noteq> CHR ''/'') (rev path)
      in if r = [] then ''.'' else if tl r = [] then ''/'' else rev (tl r))"

definition ofstream_open :: "world \<Rightarrow> string \<Rightarrow> bool" where
  "ofstream_open w path =
     (is_directory (fs_status w (directory_of path)) \<and> \<not> is_directory (fs_status w path)
      \<and> may_create w path)"

text \<open>
  The text that \<^verbatim>\<open>writeExampleConfig\<close> writes (lines 286 to 321), as pugixml presents it
  when it loads the file: a \<^verbatim>\<open><systemList>\<close> with one \<^verbatim>\<open><system>\<close>; the comments are
  dropped.
\<close>

definition example_system_node :: system_node where
  "example_system_node =
     \<lparr>node_name = ''nes'', node_fullname = ''Nintendo Entertainment System'',
      node_path = ''~/roms/nes'', node_extension = ''.nes .NES'',
      node_command = ''retroarch -L ~/cores/libretro-fceumm.so %ROM%'',
      node_platform = ''nes'', node_theme = Some ''nes''\<rparr>"

definition example_config :: xml_document where
  "example_config = xml_document (Some [example_system_node])"

text \<open>
  \<^verbatim>\<open>writeExampleConfig\<close> returns the environment it leaves behind: if the stream opened,
  the path holds a regular file with the example configuration; if not, nothing changed.
\<close>

definition writeExampleConfig :: "world \<Rightarrow> string \<Rightarrow> world" where
  "writeExampleConfig w path =
     (if ofstream_open w path
      then w\<lparr>fs_status := (fs_status w)(path := RegularFile),
              load_file := (load_file w)(path := Some example_config)\<rparr>
      else w)"

subsection \<open>\<^verbatim>\<open>SystemData::loadConfig\<close>, the function\<close>

text \<open>
  \<^verbatim>\<open>loadConfig\<close> returns its boolean, the static vector it leaves behind and the
  environment it leaves behind, which in this file only \<^verbatim>\<open>writeExampleConfig\<close> changes.
  \<^verbatim>\<open>deleteSystems\<close> empties the vector first.
\<close>

definition deleteSystems :: "SystemData list \<Rightarrow> SystemData list" where
  "deleteSystems sSystemVector = []"

definition loadConfig ::
  "world \<Rightarrow> SystemData list \<Rightarrow> cpp_error + (bool \<times> SystemData list \<times> world)" where
  "loadConfig w sSystemVector0 =
     (let sSystemVector = deleteSystems sSystemVector0;
          path = getConfigPath w False
      in if \<not> fs_exists w path
         then Inr (False, sSystemVector, writeExampleConfig w (getConfigPath w True))
         else case load_file w path of
                None \<Rightarrow> Inr (False, sSystemVector, w)
              | Some doc \<Rightarrow>
                 (case systemList doc of
                    None \<Rightarrow> Inr (False, sSystemVector, w)
                  | Some systems \<Rightarrow>
                     (case loadConfig_loop w systems sSystemVector of
                        Inl e \<Rightarrow> Inl e
                      | Inr registered \<Rightarrow>
                          Inr (True, loadCollectionSystems w registered, w))))"

subsection \<open>Gamelist and theme paths\<close>

text \<open>
  \<^verbatim>\<open>getGamelistPath\<close> returns the path and the directories it asked
  \<^verbatim>\<open>fs::create_directories\<close> to create.
\<close>

definition getGamelistPath :: "world \<Rightarrow> SystemData \<Rightarrow> bool \<Rightarrow> string \<times> string list" where
  "getGamelistPath w this forWrite =
     (let filePath = path_append (getPath (mRootFolder this)) ''gamelist.xml''
      in if fs_exists w filePath then (filePath, [])
         else
           (let filePath = getHomePath w @ ''/.emulationstation/gamelists/'' @ mName this
                             @ ''/gamelist.xml'';
                created = (if forWrite then [parent_path w filePath] else [])
            in if forWrite \<or> fs_exists w filePath then (filePath, created)
               else (''/etc/emulationstation/gamelists/'' @ mName this @ ''/gamelist.xml'',
                     created)))"

definition hasGamelist :: "world \<Rightarrow> SystemData \<Rightarrow> bool" where
  "hasGamelist w this = fs_exists w (fst (getGamelistPath w this False))"

definition getThemePath :: "world \<Rightarrow> SystemData \<Rightarrow> string" where
  "getThemePath w this =
     (let localThemePath = path_append (getPath (mRootFolder this)) ''theme.xml''
      in if fs_exists w localThemePath then localThemePath
         else
           (let localThemePath = getThemeFromCurrentSet w (mThemeFolder this)
            in if fs_exists w localThemePath then localThemePath
               else path_append (parent_path w (parent_path w localThemePath)) ''theme.xml''))"

subsection \<open>Counts and random selection\<close>

text \<open>
  The counts are \<^verbatim>\<open>unsigned int\<close>: the size of the list, truncated to 32 bits.
  \<open>shown\<close> is the filter index's verdict on a file.
\<close>

definition getGameCount :: "(FileData \<Rightarrow> bool) \<Rightarrow> SystemData \<Rightarrow> 32 word" where
  "getGameCount shown this =
     of_nat (length (getFilesRecursive shown GAME False (mRootFolder this)))"

definition getDisplayedGameCount :: "(FileData \<Rightarrow> bool) \<Rightarrow> SystemData \<Rightarrow> 32 word" where
  "getDisplayedGameCount shown this =
     of_nat (length (getFilesRecursive shown GAME True (mRootFolder this)))"

text \<open>
  \<^verbatim>\<open>int target = std::round(((double)std::rand() / (double)RAND_MAX) * (total - 1))\<close>.
  \<open>r\<close> is the value of \<^verbatim>\<open>std::rand()\<close>; \<open>fl\<close> rounds a real result to a
  \<^verbatim>\<open>double\<close>, once for the quotient and once for the product (the conversions of
  \<open>r\<close>, \<^verbatim>\<open>RAND_MAX\<close> and the 32-bit \<open>total - 1\<close> to \<^verbatim>\<open>double\<close> are exact).
  \<open>total - 1\<close> is computed on \<^verbatim>\<open>unsigned int\<close> and wraps at zero.  \<^verbatim>\<open>std::round\<close>
  rounds halves away from zero, and the conversion of its result to \<^verbatim>\<open>int\<close> is
  undefined outside the range of \<^verbatim>\<open>int\<close>.
\<close>

definition std_round :: "real \<Rightarrow> int" where
  "std_round x = (if 0 \<le> x then \<lfloor>x + 1 / 2\<rfloor> else - \<lfloor>- x + 1 / 2\<rfloor>)"

definition to_int :: "int \<Rightarrow> cpp_error + int" where
  "to_int v = (if - (2 ^ 31) \<le> v \<and> v \<le> 2 ^ 31 - 1 then Inr v else Inl float_to_int_overflow)"

definition random_target :: "(real \<Rightarrow> real) \<Rightarrow> nat \<Rightarrow> nat \<Rightarrow> 32 word \<Rightarrow> cpp_error + int" where
  "random_target fl RAND_MAX r total' =
     to_int (std_round (fl (fl (real r / real RAND_MAX) * real (unat (total' - 1)))))"

text \<open>
  \<^verbatim>\<open>getRandomGame\<close>, as a function of the vector \<open>list\<close> that
  \<^verbatim>\<open>mRootFolder->getFilesRecursive(GAME, true)\<close> returned; \<^verbatim>\<open>list.at(target)\<close> throws
  outside the list, and \<open>None\<close> is the \<^verbatim>\<open>NULL\<close> pointer.
\<close>

definition getRandomGame ::
  "(real \<Rightarrow> real) \<Rightarrow> nat \<Rightarrow> nat \<Rightarrow> FileData list \<Rightarrow> cpp_error + FileData option" where
  "getRandomGame fl RAND_MAX r list =
     (let total' = (of_nat (length list) :: 32 word)
      in if total' = 0 then Inr None
         else case random_target fl RAND_MAX r total' of
                Inl e \<Rightarrow> Inl e
              | Inr target \<Rightarrow>
                  if 0 \<le> target \<and> nat target < length list
                  then Inr (Some (list ! nat target))
                  else Inl out_of_range)"

text \<open>
  \<^verbatim>\<open>getRandomSystem\<close>: the counting loop, the target, and the selection loop, which has
  no \<^verbatim>\<open>return\<close> after it.
\<close>

fun count_game_systems :: "SystemData list \<Rightarrow> 32 word \<Rightarrow> 32 word" where
  "count_game_systems [] total' = total'"
| "count_game_systems (s # rest) total' =
     (if mIsGameSystem s then count_game_systems rest (total' + 1)
      else count_game_systems rest total')"

fun select_game_system :: "SystemData list \<Rightarrow> int \<Rightarrow> cpp_error + SystemData" where
  "select_game_system [] target = Inl missing_return"
| "select_game_system (s # rest) target =
     (if mIsGameSystem s
      then (if target > 0 then select_game_system rest (target - 1) else Inr s)
      else select_game_system rest target)"

definition getRandomSystem ::
  "(real \<Rightarrow> real) \<Rightarrow> nat \<Rightarrow> nat \<Rightarrow> SystemData list \<Rightarrow> cpp_error + SystemData" where
  "getRandomSystem fl RAND_MAX r sSystemVector =
     (let total' = count_game_systems sSystemVector 0
      in case random_target fl RAND_MAX r total' of
           Inl e \<Rightarrow> Inl e
         | Inr target \<Rightarrow> select_game_system sSystemVector target)"

subsection \<open>What \<^verbatim>\<open>populateFolder\<close> is meant to add\<close>

text \<open>
  The children that one directory entry contributes.  \<open>claimed_entry_children\<close> follows
  the description of the scan: a game for an entry with a non-empty stem and a listed
  extension (unless hidden and hidden files are not shown), and for each remaining entry
  that is a directory the scanned sub-folder if the scan left it a child.
  \<open>scanned_entry_children\<close> differs in one place: an entry with an empty stem
  contributes nothing, whatever it is.
\<close>

definition claimed_entry_children ::
  "bool \<Rightarrow> SystemEnvironmentData \<Rightarrow> string \<times> fsnode \<Rightarrow> FileData list" where
  "claimed_entry_children showHidden envData =
     (\<lambda>(filePath, node).
        if stem filePath \<noteq> [] \<and> extension filePath \<in> set (mSearchExtensions envData)
        then (if \<not> showHidden \<and> isHidden filePath then [] else [FileData GAME filePath []])
        else if is_directory node
        then (let sub = populateFolder showHidden envData node (FileData FOLDER filePath [])
              in if getChildren sub \<noteq> [] then [sub] else [])
        else [])"

definition scanned_entry_children ::
  "bool \<Rightarrow> SystemEnvironmentData \<Rightarrow> string \<times> fsnode \<Rightarrow> FileData list" where
  "scanned_entry_children showHidden envData =
     (\<lambda>(filePath, node).
        if stem filePath = [] then []
        else if extension filePath \<in> set (mSearchExtensions envData)
        then (if \<not> showHidden \<and> isHidden filePath then [] else [FileData GAME filePath []])
        else if is_directory node
        then (let sub = populateFolder showHidden envData node (FileData FOLDER filePath [])
              in if getChildren sub \<noteq> [] then [sub] else [])
        else [])"

subsection \<open>The invariant of a registered system\<close>


subsection \<open>What \<^verbatim>\<open>readList\<close> is meant to return\<close>

text \<open>
  A pair \<open>(i, j)\<close> marks the substring of \<open>str\<close> from index \<open>i\<close> up to, not
  including, \<open>j\<close>.  It is a maximal delimiter-free substring when it is not empty, holds
  no delimiter, and cannot be extended on either side: it starts at the beginning of
  the string or after a delimiter, and ends at the end of the string or before a
  delimiter.  Enumerating the pairs by \<open>i\<close> first lists them from left to right.
\<close>

definition delimiter_free_maximal :: "string \<Rightarrow> string \<Rightarrow> nat \<times> nat \<Rightarrow> bool" where
  "delimiter_free_maximal delims str =
     (\<lambda>(i, j). i < j \<and> j \<le> length str
        \<and> (\<forall>k \<in> {i..<j}. str ! k \<notin> set delims)
        \<and> (i = 0 \<or> str ! (i - 1) \<in> set delims)
        \<and> (j = length str \<or> str ! j \<in> set delims))"

definition maximal_delimiter_free_substrings :: "string \<Rightarrow> string \<Rightarrow> string list" where
  "maximal_delimiter_free_substrings delims str =
     map (\<lambda>(i, j). take (j - i) (drop i str))
       (filter (delimiter_free_maximal delims str)
          (List.product [0..<length str] [0..<Suc (length str)]))"

text \<open>
  Auxiliary notions for the proofs: the end of the run of characters satisfying \<open>P\<close>
  that starts at \<open>p\<close>, the positions where a token starts, the token that starts at a
  position, and the number of values of \<open>size_t\<close>.
\<close>

definition run_end :: "(char \<Rightarrow> bool) \<Rightarrow> string \<Rightarrow> nat \<Rightarrow> nat" where
  "run_end P s p = p + length (takeWhile P (drop p s))"

definition token_start :: "string \<Rightarrow> string \<Rightarrow> nat \<Rightarrow> bool" where
  "token_start D s i = (s ! i \<notin> set D \<and> (i = 0 \<or> s ! (i - 1) \<in> set D))"

definition token_at :: "string \<Rightarrow> string \<Rightarrow> nat \<Rightarrow> string" where
  "token_at D s i = takeWhile (\<lambda>c. c \<notin> set D) (drop i s)"

definition size_limit :: nat where
  "size_limit = 2 ^ 64"

subsection \<open>A concrete installation\<close>

text \<open>
  An installation for evaluating the functions above: the home directory
  \<^verbatim>\<open>/home/pi\<close>, a configuration file with the system of the example configuration, a
  ROM directory with two games (one of them in a sub-folder), a hidden game, an empty
  folder, a text file and a dot-named folder that holds a game, and a theme set with a
  theme for the system.
\<close>

definition demo_roms :: fsnode where
  "demo_roms =
     Directory None
       [(''/home/pi/roms/nes/mario.nes'', RegularFile),
        (''/home/pi/roms/nes/.secret.nes'', RegularFile),
        (''/home/pi/roms/nes/hacks'',
           Directory None [(''/home/pi/roms/nes/hacks/kaizo.NES'', RegularFile)]),
        (''/home/pi/roms/nes/empty'', Directory None []),
        (''/home/pi/roms/nes/readme.txt'', RegularFile),
        (''/home/pi/roms/nes/.cache'',
           Directory None [(''/home/pi/roms/nes/.cache/old.nes'', RegularFile)])]"

definition demo_system_node :: system_node where
  "demo_system_node =
     \<lparr>node_name = ''nes'', node_fullname = ''Nintendo Entertainment System'',
      node_path = ''~/roms/nes'', node_extension = ''.nes .NES'',
      node_command = ''retroarch -L ~/cores/libretro-fceumm.so %ROM%'',
      node_platform = ''nes'', node_theme = Some ''nes''\<rparr>"

definition demo_world :: world where
  "demo_world =
     \<lparr>ParseGamelistOnly = False, IgnoreGamelist = False, ShowHiddenFiles = False,
      getHomePath = ''/home/pi'',
      fs_status = (\<lambda>p. if p = ''/home/pi/roms/nes'' then demo_roms
                        else if p = ''/home/pi/.emulationstation/es_systems.cfg'' then RegularFile
                        else if p = ''/etc/emulationstation/themes/carbon/nes/theme.xml''
                        then RegularFile
                        else Missing),
      parent_path = (\<lambda>p. rev (tl (dropWhile (\<lambda>c. c \<noteq> CHR ''/'') (rev p)))),
      getThemeFromCurrentSet =
        (\<lambda>system. ''/etc/emulationstation/themes/carbon/'' @ system @ ''/theme.xml''),
      parseGamelist = mRootFolder,
      sort_FileData = (\<lambda>sortType folder. folder),
      SortTypes = [''filename, ascending'', ''filename, descending''],
      getPlatformId = (\<lambda>str. if str = ''nes'' then PLATFORM_ID 7 else PLATFORM_UNKNOWN),
      load_file = (\<lambda>p. if p = ''/home/pi/.emulationstation/es_systems.cfg''
                        then Some (xml_document (Some [demo_system_node])) else None),
      loadCollectionSystems = (\<lambda>sSystemVector. sSystemVector),
      may_create = (\<lambda>p. True)\<rparr>"

definition demo_env :: SystemEnvironmentData where
  "demo_env =
     \<lparr>mStartPath = ''/home/pi/roms/nes'', mSearchExtensions = [''.nes'', ''.NES''],
      mLaunchCommand = ''retroarch -L ~/cores/libretro-fceumm.so %ROM%'',
      mPlatformIds = [PLATFORM_ID 7]\<rparr>"

definition demo_tree :: FileData where
  "demo_tree =
     FileData FOLDER ''/home/pi/roms/nes''
       [FileData GAME ''/home/pi/roms/nes/mario.nes'' [],
        FileData FOLDER ''/home/pi/roms/nes/hacks''
          [FileData GAME ''/home/pi/roms/nes/hacks/kaizo.NES'' []]]"

definition demo_system :: SystemData where
  "demo_system =
     \<lparr>mName = ''nes'', mFullName = ''Nintendo Entertainment System'', mEnvData = demo_env,
      mThemeFolder = ''nes'', mIsCollectionSystem = False, mIsGameSystem = True,
      mRootFolder = demo_tree\<rparr>"

text \<open>A ROM directory whose only entry is a dot-named folder that holds a game.\<close>

definition dot_folder_roms :: fsnode where
  "dot_folder_roms =
     Directory None
       [(''/home/pi/roms/nes/.cache'',
           Directory None [(''/home/pi/roms/nes/.cache/old.nes'', RegularFile)])]"






section \<open>\<^verbatim>\<open>readList\<close> splits a string at its delimiters\<close>

subsection \<open>Runs of characters\<close>

lemma run_end_le: "p \<le> length s \<Longrightarrow> run_end P s p \<le> length s"
  unfolding run_end_def
  using length_takeWhile_le [of P "drop p s"] by simp

lemma run_end_ge: "p \<le> run_end P s p"
  by (simp add: run_end_def)

lemma run_end_inside: "p \<le> k \<Longrightarrow> k < run_end P s p \<Longrightarrow> k < length s \<Longrightarrow> P (s ! k)"
proof -
  assume a: "p \<le> k" "k < run_end P s p" "k < length s"
  then have j: "k - p < length (takeWhile P (drop p s))" by (simp add: run_end_def)
  then have eq: "takeWhile P (drop p s) ! (k - p) = drop p s ! (k - p)" by (rule takeWhile_nth)
  from j have "takeWhile P (drop p s) ! (k - p) \<in> set (takeWhile P (drop p s))" by (rule nth_mem)
  then have "P (takeWhile P (drop p s) ! (k - p))" by (rule set_takeWhileD [THEN conjunct2])
  then have "P (drop p s ! (k - p))" by (simp only: eq)
  moreover have "drop p s ! (k - p) = s ! (p + (k - p))" using a by (intro nth_drop) simp
  ultimately show ?thesis using a(1) by simp
qed

lemma run_end_stop: "run_end P s p < length s \<Longrightarrow> \<not> P (s ! run_end P s p)"
proof -
  assume a: "run_end P s p < length s"
  then have "length (takeWhile P (drop p s)) < length (drop p s)" by (simp add: run_end_def)
  then have "\<not> P (drop p s ! length (takeWhile P (drop p s)))" by (rule nth_length_takeWhile)
  with a show ?thesis by (simp add: run_end_def)
qed

lemma run_end_Suc: "p < length s \<Longrightarrow> P (s ! p) \<Longrightarrow> run_end P s p = run_end P s (Suc p)"
proof -
  assume a: "p < length s" "P (s ! p)"
  then have "drop p s = s ! p # drop (Suc p) s" by (simp add: Cons_nth_drop_Suc)
  with a(2) show ?thesis by (simp add: run_end_def)
qed

lemma run_end_here: "p < length s \<Longrightarrow> \<not> P (s ! p) \<Longrightarrow> run_end P s p = p"
proof -
  assume a: "p < length s" "\<not> P (s ! p)"
  then have "drop p s = s ! p # drop (Suc p) s" by (simp add: Cons_nth_drop_Suc)
  with a(2) show ?thesis by (simp add: run_end_def)
qed

lemma run_end_at_end: "length s \<le> p \<Longrightarrow> run_end P s p = p"
  by (simp add: run_end_def)

subsection \<open>The two searches in terms of runs\<close>

lemma of_nat_in_range:
  assumes "length s < 2 ^ 64" "p < length s"
  shows "(of_nat p :: size_t) < str_size s" "unat (of_nat p :: size_t) = p"
    "(of_nat p :: size_t) + 1 = of_nat (Suc p)"
proof -
  from assms have p: "p < 2 ^ 64" by simp
  from p show u: "unat (of_nat p :: size_t) = p" by (simp add: unat_of_nat)
  from assms have "unat (str_size s) = length s" by (simp add: str_size_def unat_of_nat)
  with u assms(2) show "(of_nat p :: size_t) < str_size s" by (simp add: word_less_nat_alt)
  show "(of_nat p :: size_t) + 1 = of_nat (Suc p)" by simp
qed

lemma find_first_of_unfold:
  assumes "length s < 2 ^ 64" "p < length s"
  shows "find_first_of s D (of_nat p) =
    (if s ! p \<in> set D then of_nat p else find_first_of s D (of_nat (Suc p)))"
  by (subst find_first_of.simps) (simp only: of_nat_in_range [OF assms] if_True)

lemma find_first_not_of_unfold:
  assumes "length s < 2 ^ 64" "p < length s"
  shows "find_first_not_of s D (of_nat p) =
    (if s ! p \<notin> set D then of_nat p else find_first_not_of s D (of_nat (Suc p)))"
  by (subst find_first_not_of.simps) (simp only: of_nat_in_range [OF assms] if_True)

lemma find_past_end:
  assumes "length s \<le> p" "p < 2 ^ 64"
  shows "find_first_of s D (of_nat p) = npos" "find_first_not_of s D (of_nat p) = npos"
proof -
  from assms have "unat (of_nat p :: size_t) = p" "unat (str_size s) = length s"
    by (simp_all add: str_size_def unat_of_nat)
  with assms(1) have n: "\<not> (of_nat p :: size_t) < str_size s" by (simp add: word_less_nat_alt)
  show "find_first_of s D (of_nat p) = npos"
    by (subst find_first_of.simps) (simp only: n if_False)
  show "find_first_not_of s D (of_nat p) = npos"
    by (subst find_first_not_of.simps) (simp only: n if_False)
qed

lemma find_first_of_run_end:
  assumes "length s < 2 ^ 64" "p \<le> length s"
  shows "find_first_of s D (of_nat p) =
    (if run_end (\<lambda>c. c \<notin> set D) s p < length s
     then of_nat (run_end (\<lambda>c. c \<notin> set D) s p) else npos)"
  using assms(2)
proof (induction "length s - p" arbitrary: p)
  case 0
  then have "length s \<le> p" "p < 2 ^ 64" using assms(1) by simp_all
  then show ?case by (simp add: find_past_end run_end_at_end)
next
  case (Suc d)
  then have lt: "p < length s" by simp
  from Suc.hyps(2) have d: "d = length s - Suc p" by simp
  from lt have le: "Suc p \<le> length s" by simp
  note IH = Suc.hyps(1) [OF d le]
  show ?case
  proof (cases "s ! p \<in> set D")
    case True
    then show ?thesis
      by (simp add: find_first_of_unfold [OF assms(1) lt] run_end_here lt)
  next
    case False
    then have "run_end (\<lambda>c. c \<notin> set D) s p = run_end (\<lambda>c. c \<notin> set D) s (Suc p)"
      using lt by (intro run_end_Suc)
    with False IH show ?thesis
      by (simp only: find_first_of_unfold [OF assms(1) lt] if_False)
  qed
qed

lemma find_first_not_of_run_end:
  assumes "length s < 2 ^ 64" "p \<le> length s"
  shows "find_first_not_of s D (of_nat p) =
    (if run_end (\<lambda>c. c \<in> set D) s p < length s
     then of_nat (run_end (\<lambda>c. c \<in> set D) s p) else npos)"
  using assms(2)
proof (induction "length s - p" arbitrary: p)
  case 0
  then have "length s \<le> p" "p < 2 ^ 64" using assms(1) by simp_all
  then show ?case by (simp add: find_past_end run_end_at_end)
next
  case (Suc d)
  then have lt: "p < length s" by simp
  from Suc.hyps(2) have d: "d = length s - Suc p" by simp
  from lt have le: "Suc p \<le> length s" by simp
  note IH = Suc.hyps(1) [OF d le]
  show ?case
  proof (cases "s ! p \<in> set D")
    case False
    then show ?thesis
      by (simp add: find_first_not_of_unfold [OF assms(1) lt] run_end_here lt)
  next
    case True
    then have "run_end (\<lambda>c. c \<in> set D) s p = run_end (\<lambda>c. c \<in> set D) s (Suc p)"
      using lt by (intro run_end_Suc)
    with True IH show ?thesis
      by (simp only: find_first_not_of_unfold [OF assms(1) lt] if_False not_not not_True_eq_False)
  qed
qed

subsection \<open>Where tokens start\<close>

lemma no_starts_in_delims:
  assumes "\<And>k. q \<le> k \<Longrightarrow> k < f \<Longrightarrow> s ! k \<in> set D"
  shows "filter (token_start D s) [q..<f] = []"
  using assms by (auto simp: filter_empty_conv token_start_def)

lemma no_starts_in_run:
  assumes "\<And>k. p \<le> k \<Longrightarrow> k < e \<Longrightarrow> s ! k \<notin> set D"
  shows "filter (token_start D s) [Suc p..<e] = []"
proof -
  have "\<not> token_start D s k" if "k \<in> set [Suc p..<e]" for k
  proof -
    from that have "p \<le> k - 1" "k - 1 < e" "k \<noteq> 0" by auto
    with assms [of "k - 1"] show ?thesis by (simp add: token_start_def)
  qed
  then show ?thesis by (simp add: filter_empty_conv)
qed

lemma starts_split:
  assumes qf: "q \<le> f" and fn: "f < length s"
    and delims: "\<And>k. q \<le> k \<Longrightarrow> k < f \<Longrightarrow> s ! k \<in> set D"
    and nd: "s ! f \<notin> set D" and first: "q = 0 \<or> q < f"
  shows "filter (token_start D s) [q..<length s] =
         f # filter (token_start D s) [run_end (\<lambda>c. c \<notin> set D) s f..<length s]"
proof -
  let ?e = "run_end (\<lambda>c. c \<notin> set D) s f"
  have e_le: "?e \<le> length s" using fn by (intro run_end_le) simp
  have "?e \<noteq> f" using run_end_stop [of "\<lambda>c. c \<notin> set D" s f] nd fn by auto
  with run_end_ge [of f "\<lambda>c. c \<notin> set D" s] have f_lt: "f < ?e" by simp
  have run: "s ! k \<notin> set D" if "f \<le> k" "k < ?e" for k
    using run_end_inside [of f k "\<lambda>c. c \<notin> set D" s] that e_le by simp
  have start_f: "token_start D s f"
  proof (cases "f = 0")
    case True
    with nd show ?thesis by (simp add: token_start_def)
  next
    case False
    with first qf have "q \<le> f - 1" "f - 1 < f" by auto
    with delims [of "f - 1"] nd show ?thesis by (simp add: token_start_def)
  qed
  have "[q..<f + (length s - f)] = [q..<f] @ [f..<f + (length s - f)]"
    using qf by (rule upt_add_eq_append)
  moreover have "[f..<?e + (length s - ?e)] = [f..<?e] @ [?e..<?e + (length s - ?e)]"
    using f_lt by (intro upt_add_eq_append) simp
  ultimately have "[q..<length s] = [q..<f] @ [f..<?e] @ [?e..<length s]"
    using fn e_le by simp
  moreover have "[f..<?e] = f # [Suc f..<?e]" using f_lt by (simp add: upt_conv_Cons)
  ultimately have "filter (token_start D s) [q..<length s] =
      filter (token_start D s) [q..<f] @ filter (token_start D s) (f # [Suc f..<?e])
      @ filter (token_start D s) [?e..<length s]" by simp
  also have "filter (token_start D s) [q..<f] = []" using delims by (rule no_starts_in_delims)
  also have "filter (token_start D s) (f # [Suc f..<?e]) = [f]"
    using start_f no_starts_in_run [of f ?e s D] run by simp
  finally show ?thesis by simp
qed

subsection \<open>Arithmetic on \<open>size_t\<close>\<close>

lemma unat_of_nat_size_t: "p < size_limit \<Longrightarrow> unat (of_nat p :: size_t) = p"
  by (simp add: size_limit_def unat_of_nat)

lemma unat_npos: "Suc (unat npos) = size_limit"
  by (simp add: npos_def size_limit_def unsigned_minus_1_eq_mask mask_eq_exp_minus_1)

lemma of_nat_neq_npos: "Suc p < size_limit \<Longrightarrow> (of_nat p :: size_t) \<noteq> npos"
proof
  assume a: "Suc p < size_limit" "(of_nat p :: size_t) = npos"
  then have "unat (of_nat p :: size_t) = unat npos" by simp
  moreover from a(1) have "unat (of_nat p :: size_t) = p" by (intro unat_of_nat_size_t) simp
  ultimately show False using a(1) unat_npos by simp
qed

lemma min_count:
  assumes "a \<le> b" "b < size_limit"
  shows "unat (min (of_nat a :: size_t) (of_nat b)) = a"
proof -
  from assms have ua: "unat (of_nat a :: size_t) = a" by (intro unat_of_nat_size_t) simp
  from assms have ub: "unat (of_nat b :: size_t) = b" by (intro unat_of_nat_size_t)
  from ua ub assms(1) have "(of_nat a :: size_t) \<le> of_nat b" by (simp add: word_le_nat_alt)
  then show ?thesis using ua by (simp add: min_def)
qed

lemma min_count_npos:
  assumes "p \<le> n" "n < size_limit"
  shows "unat (min (npos - of_nat p :: size_t) (of_nat (n - p))) = n - p"
proof -
  from assms have up: "unat (of_nat p :: size_t) = p" by (intro unat_of_nat_size_t) simp
  from assms have un: "unat (of_nat (n - p) :: size_t) = n - p" by (intro unat_of_nat_size_t) simp
  have "(of_nat p :: size_t) \<le> npos" by (simp add: npos_def)
  then have "unat (npos - of_nat p :: size_t) = unat npos - unat (of_nat p :: size_t)"
    by (rule unat_sub)
  with up unat_npos assms have "n - p \<le> unat (npos - of_nat p :: size_t)" by simp
  with un have "(of_nat (n - p) :: size_t) \<le> npos - of_nat p"
    by (simp add: word_le_nat_alt)
  with un show ?thesis by (simp add: min_def)
qed

lemma substr_token:
  assumes len: "length s < size_limit" and p: "p < length s" and nd: "s ! p \<notin> set D"
  shows "substr s (of_nat p) (find_first_of s D (of_nat p) - of_nat p) = Inr (token_at D s p)"
proof -
  let ?e = "run_end (\<lambda>c. c \<notin> set D) s p"
  have e_le: "?e \<le> length s" using p by (intro run_end_le) simp
  have p_le: "p \<le> ?e" by (rule run_end_ge)
  have tk: "token_at D s p = take (?e - p) (drop p s)"
  proof -
    have "?e - p = length (takeWhile (\<lambda>c. c \<notin> set D) (drop p s))"
      by (simp add: run_end_def)
    then show ?thesis
      unfolding token_at_def by (simp only: takeWhile_eq_take [symmetric])
  qed
  from len p have up: "unat (of_nat p :: size_t) = p" by (intro unat_of_nat_size_t) simp
  from len have us: "unat (str_size s) = length s"
    unfolding str_size_def by (rule unat_of_nat_size_t)
  with p up have nlt: "\<not> str_size s < of_nat p" by (simp add: word_less_nat_alt)
  have sz: "str_size s - of_nat p = of_nat (length s - p)"
    using p by (simp add: str_size_def of_nat_diff)
  have fof: "find_first_of s D (of_nat p) = (if ?e < length s then of_nat ?e else npos)"
    using len p by (intro find_first_of_run_end) (simp_all add: size_limit_def)
  show ?thesis
  proof (cases "?e < length s")
    case True
    have "(of_nat ?e :: size_t) - of_nat p = of_nat (?e - p)" using p_le by (simp add: of_nat_diff)
    moreover have "unat (min (of_nat (?e - p) :: size_t) (of_nat (length s - p))) = ?e - p"
      using e_le len by (intro min_count) simp_all
    ultimately show ?thesis
      using True by (simp add: substr_def nlt fof sz up tk)
  next
    case False
    with e_le have e: "?e = length s" by simp
    have "unat (min (npos - of_nat p :: size_t) (of_nat (length s - p))) = length s - p"
      using p len by (intro min_count_npos) simp_all
    then show ?thesis
      using False by (simp add: substr_def nlt fof sz up tk e)
  qed
qed

subsection \<open>The loop\<close>

lemma readList_loop_done: "readList_loop s D npos npos ret = Inr ret"
  by (subst readList_loop.simps) simp

lemma readList_loop_step:
  assumes "length s < size_limit" "p < length s" "s ! p \<notin> set D"
  shows "readList_loop s D (of_nat p) (find_first_of s D (of_nat p)) ret =
         readList_loop s D
           (find_first_not_of s D (find_first_of s D (of_nat p)))
           (find_first_of s D (find_first_not_of s D (find_first_of s D (of_nat p))))
           (ret @ [token_at D s p])"
proof -
  from assms have "(of_nat p :: size_t) \<noteq> npos" by (intro of_nat_neq_npos) simp
  then show ?thesis
    by (subst readList_loop.simps) (simp add: substr_token [OF assms] Let_def)
qed

lemma readList_loop_tokens:
  assumes len: "length s < size_limit"
  shows "p < length s \<Longrightarrow> s ! p \<notin> set D \<Longrightarrow>
     readList_loop s D (of_nat p) (find_first_of s D (of_nat p)) ret =
       Inr (ret @ token_at D s p #
            map (token_at D s)
              (filter (token_start D s) [run_end (\<lambda>c. c \<notin> set D) s p..<length s]))"
proof (induction "length s - p" arbitrary: p ret rule: less_induct)
  case less
  let ?e = "run_end (\<lambda>c. c \<notin> set D) s p"
  let ?f = "run_end (\<lambda>c. c \<in> set D) s ?e"
  note p = less.prems(1) and nd = less.prems(2)
  from len have len64: "length s < 2 ^ 64" by (simp add: size_limit_def)
  have e_le: "?e \<le> length s" using p by (intro run_end_le) simp
  have "?e \<noteq> p" using run_end_stop [of "\<lambda>c. c \<notin> set D" s p] nd p by auto
  with run_end_ge [of p "\<lambda>c. c \<notin> set D" s] have p_lt: "p < ?e" by simp
  have fof: "find_first_of s D (of_nat p) = (if ?e < length s then of_nat ?e else npos)"
    using len64 p by (intro find_first_of_run_end) simp_all
  note step = readList_loop_step [OF len p nd, of ret]
  show ?case
  proof (cases "?e < length s")
    case False
    with e_le have "[?e..<length s] = []" by simp
    with False show ?thesis
      unfolding step by (simp add: fof find_at_npos readList_loop_done)
  next
    case e_lt: True
    then have off: "find_first_of s D (of_nat p) = of_nat ?e" by (simp add: fof)
    from step have step': "readList_loop s D (of_nat p) (find_first_of s D (of_nat p)) ret =
         readList_loop s D
           (find_first_not_of s D (of_nat ?e))
           (find_first_of s D (find_first_not_of s D (of_nat ?e)))
           (ret @ [token_at D s p])"
      by (simp only: off)
    have f_le: "?f \<le> length s" using e_le by (rule run_end_le)
    have e_f: "?e \<le> ?f" by (rule run_end_ge)
    have fnof: "find_first_not_of s D (of_nat ?e) = (if ?f < length s then of_nat ?f else npos)"
      using len64 e_le by (rule find_first_not_of_run_end)
    have delims: "s ! k \<in> set D" if "?e \<le> k" "k < ?f" for k
      using run_end_inside [of ?e k "\<lambda>c. c \<in> set D" s] that f_le by simp
    show ?thesis
    proof (cases "?f < length s")
      case False
      with f_le have "?f = length s" by simp
      with delims have "filter (token_start D s) [?e..<length s] = []"
        by (intro no_starts_in_delims) simp
      with False show ?thesis
        unfolding step' by (simp add: fnof find_at_npos readList_loop_done)
    next
      case f_lt: True
      have nd_f: "s ! ?f \<notin> set D"
        using run_end_stop [of "\<lambda>c. c \<in> set D" s ?e] f_lt by simp
      have "s ! ?e \<in> set D"
        using run_end_stop [of "\<lambda>c. c \<notin> set D" s p] e_lt by simp
      with nd_f have "?e \<noteq> ?f" by auto
      with e_f have "?e < ?f" by simp
      then have first: "?e = 0 \<or> ?e < ?f" by simp
      have split: "filter (token_start D s) [?e..<length s] =
          ?f # filter (token_start D s) [run_end (\<lambda>c. c \<notin> set D) s ?f..<length s]"
        using e_f f_lt delims nd_f first by (rule starts_split)
      have "length s - ?f < length s - p" using p_lt e_f f_lt by simp
      note IH = less.hyps [OF this f_lt nd_f, of "ret @ [token_at D s p]"]
      have next_off: "find_first_not_of s D (of_nat ?e) = of_nat ?f"
        using f_lt by (simp add: fnof)
      show ?thesis
        unfolding step' next_off IH split by simp
    qed
  qed
qed

lemma readList_tokens:
  assumes len: "length s < size_limit"
  shows "readList s D = Inr (map (token_at D s) (filter (token_start D s) [0..<length s]))"
proof -
  let ?f = "run_end (\<lambda>c. c \<in> set D) s 0"
  from len have len64: "length s < 2 ^ 64" by (simp add: size_limit_def)
  have f_le: "?f \<le> length s" by (intro run_end_le) simp
  have "find_first_not_of s D (of_nat 0) = (if ?f < length s then of_nat ?f else npos)"
    using len64 by (intro find_first_not_of_run_end) simp_all
  then have fnof: "find_first_not_of s D 0 = (if ?f < length s then of_nat ?f else npos)"
    by simp
  have delims: "s ! k \<in> set D" if "0 \<le> k" "k < ?f" for k
    using run_end_inside [of 0 k "\<lambda>c. c \<in> set D" s] that f_le by simp
  show ?thesis
  proof (cases "?f < length s")
    case False
    with f_le have "?f = length s" by simp
    with delims have "filter (token_start D s) [0..<length s] = []"
      by (intro no_starts_in_delims) simp
    with False show ?thesis
      by (simp add: readList_def fnof find_at_npos readList_loop_done)
  next
    case True
    have nd_f: "s ! ?f \<notin> set D"
      using run_end_stop [of "\<lambda>c. c \<in> set D" s 0] True by simp
    have "filter (token_start D s) [0..<length s] =
          ?f # filter (token_start D s) [run_end (\<lambda>c. c \<notin> set D) s ?f..<length s]"
      using _ True delims nd_f by (rule starts_split) simp_all
    with True show ?thesis
      by (simp add: readList_def fnof readList_loop_tokens [OF len True nd_f])
  qed
qed

lemma filter_eq_singleton: "a < m \<Longrightarrow> filter (\<lambda>j. j = a) [0..<m] = [a]"
proof (induction m)
  case 0
  then show ?case by simp
next
  case (Suc m)
  show ?case
  proof (cases "a = m")
    case True
    then have "filter (\<lambda>j. j = a) [0..<m] = []" by (simp add: filter_empty_conv)
    with True show ?thesis by simp
  next
    case False
    with Suc show ?thesis by simp
  qed
qed

lemma maximal_iff:
  assumes i: "i < length s"
  shows "delimiter_free_maximal D s (i, j) \<longleftrightarrow>
         token_start D s i \<and> j = run_end (\<lambda>c. c \<notin> set D) s i"
proof
  let ?e = "run_end (\<lambda>c. c \<notin> set D) s i"
  have e_le: "?e \<le> length s" using i by (intro run_end_le) simp
  {
    assume m: "delimiter_free_maximal D s (i, j)"
    then have ij: "i < j" and jn: "j \<le> length s"
      and free: "\<And>k. i \<le> k \<Longrightarrow> k < j \<Longrightarrow> s ! k \<notin> set D"
      and left: "i = 0 \<or> s ! (i - 1) \<in> set D"
      and right: "j = length s \<or> s ! j \<in> set D"
      by (auto simp: delimiter_free_maximal_def)
    from free [of i] ij left have st: "token_start D s i" by (simp add: token_start_def)
    have "\<not> ?e < j"
    proof
      assume lt: "?e < j"
      with jn have "?e < length s" by simp
      then have "s ! ?e \<in> set D" using run_end_stop [of "\<lambda>c. c \<notin> set D" s i] by simp
      moreover have "s ! ?e \<notin> set D" using free [of ?e] lt run_end_ge [of i "\<lambda>c. c \<notin> set D" s] by simp
      ultimately show False by simp
    qed
    moreover have "\<not> j < ?e"
    proof
      assume lt: "j < ?e"
      with e_le have jl: "j < length s" by simp
      with right have "s ! j \<in> set D" by simp
      moreover have "s ! j \<notin> set D"
        using run_end_inside [of i j "\<lambda>c. c \<notin> set D" s] ij lt jl by simp
      ultimately show False by simp
    qed
    ultimately have "j = ?e" by simp
    with st show "token_start D s i \<and> j = ?e" by simp
  }
  {
    assume "token_start D s i \<and> j = ?e"
    then have st: "token_start D s i" and j: "j = ?e" by simp_all
    from st have nd: "s ! i \<notin> set D" and left: "i = 0 \<or> s ! (i - 1) \<in> set D"
      by (simp_all add: token_start_def)
    have "?e \<noteq> i" using run_end_stop [of "\<lambda>c. c \<notin> set D" s i] nd i by auto
    with run_end_ge [of i "\<lambda>c. c \<notin> set D" s] have lt: "i < ?e" by simp
    have free: "s ! k \<notin> set D" if "i \<le> k" "k < ?e" for k
      using run_end_inside [of i k "\<lambda>c. c \<notin> set D" s] that e_le by simp
    have right: "?e = length s \<or> s ! ?e \<in> set D"
      using run_end_stop [of "\<lambda>c. c \<notin> set D" s i] e_le by (cases "?e < length s") simp_all
    from lt e_le free left right show "delimiter_free_maximal D s (i, j)"
      unfolding j delimiter_free_maximal_def by simp
  }
qed

lemma maximal_ends:
  assumes "i < length s"
  shows "filter (\<lambda>j. delimiter_free_maximal D s (i, j)) [0..<Suc (length s)] =
         (if token_start D s i then [run_end (\<lambda>c. c \<notin> set D) s i] else [])"
proof (cases "token_start D s i")
  case False
  then show ?thesis by (simp add: maximal_iff [OF assms] filter_empty_conv)
next
  case True
  have "run_end (\<lambda>c. c \<notin> set D) s i \<le> length s" using assms by (intro run_end_le) simp
  then have "filter (\<lambda>j. j = run_end (\<lambda>c. c \<notin> set D) s i) [0..<Suc (length s)] =
             [run_end (\<lambda>c. c \<notin> set D) s i]"
    by (intro filter_eq_singleton) simp
  with True show ?thesis by (simp add: maximal_iff [OF assms])
qed

lemma token_at_take:
  "token_at D s i = take (run_end (\<lambda>c. c \<notin> set D) s i - i) (drop i s)"
proof -
  have "run_end (\<lambda>c. c \<notin> set D) s i - i = length (takeWhile (\<lambda>c. c \<notin> set D) (drop i s))"
    by (simp add: run_end_def)
  then show ?thesis
    unfolding token_at_def by (simp only: takeWhile_eq_take [symmetric])
qed

lemma maximal_row:
  assumes "i < length s"
  shows "map (\<lambda>(i, j). take (j - i) (drop i s))
           (filter (delimiter_free_maximal D s) (map (Pair i) [0..<Suc (length s)])) =
         (if token_start D s i then [token_at D s i] else [])"
proof -
  have "filter (delimiter_free_maximal D s) (map (Pair i) [0..<Suc (length s)]) =
        map (Pair i) (filter (\<lambda>j. delimiter_free_maximal D s (i, j)) [0..<Suc (length s)])"
    by (simp add: filter_map comp_def del: upt_Suc)
  then show ?thesis
    by (simp add: maximal_ends [OF assms] token_at_take del: upt_Suc)
qed

lemma maximal_rows:
  "set xs \<subseteq> {0..<length s} \<Longrightarrow>
   map (\<lambda>(i, j). take (j - i) (drop i s))
     (filter (delimiter_free_maximal D s) (List.product xs [0..<Suc (length s)])) =
   map (token_at D s) (filter (token_start D s) xs)"
proof (induction xs)
  case Nil
  then show ?case by simp
next
  case (Cons i xs)
  then have "i < length s" by simp
  note row = maximal_row [OF this, of D]
  from Cons have "map (\<lambda>(i, j). take (j - i) (drop i s))
     (filter (delimiter_free_maximal D s) (List.product xs [0..<Suc (length s)])) =
   map (token_at D s) (filter (token_start D s) xs)" by simp
  with row show ?case by (simp del: upt_Suc)
qed

lemma tokens_are_maximal_substrings:
  "map (token_at D s) (filter (token_start D s) [0..<length s]) =
   maximal_delimiter_free_substrings D s"
  unfolding maximal_delimiter_free_substrings_def
  by (rule maximal_rows [symmetric]) simp

lemma token_nonempty_free:
  assumes "i < length s" "token_start D s i"
  shows "token_at D s i \<noteq> []" "set (token_at D s i) \<inter> set D = {}"
proof -
  from assms have "drop i s = s ! i # drop (Suc i) s" "s ! i \<notin> set D"
    by (simp_all add: Cons_nth_drop_Suc token_start_def)
  then show "token_at D s i \<noteq> []" by (simp add: token_at_def)
  show "set (token_at D s i) \<inter> set D = {}"
    unfolding token_at_def using set_takeWhileD [of _ "\<lambda>c. c \<notin> set D" "drop i s"] by auto
qed

text \<open>
  \<^bold>\<open>Claim C10.\<close>  For every string that a \<^verbatim>\<open>std::string\<close> can hold (its length fits
  \<open>size_t\<close>) and every delimiter set, \<^verbatim>\<open>readList\<close> returns a vector (it does not throw)
  whose elements are exactly the maximal delimiter-free substrings of the input, from
  left to right; each element is non-empty and holds no delimiter; and the result is
  empty when the input holds only delimiters, the empty string included.
\<close>

theorem readList_maximal_tokens:
  assumes "length str < 2 ^ 64"
  shows "\<exists>toks. readList str delims = Inr toks
           \<and> toks = maximal_delimiter_free_substrings delims str
           \<and> (\<forall>t \<in> set toks. t \<noteq> [] \<and> set t \<inter> set delims = {})
           \<and> (set str \<subseteq> set delims \<longrightarrow> toks = [])"
proof -
  let ?toks = "map (token_at delims str) (filter (token_start delims str) [0..<length str])"
  from assms have "length str < size_limit" by (simp add: size_limit_def)
  then have r: "readList str delims = Inr ?toks" by (rule readList_tokens)
  have m: "?toks = maximal_delimiter_free_substrings delims str"
    by (rule tokens_are_maximal_substrings)
  have e: "t \<noteq> [] \<and> set t \<inter> set delims = {}" if "t \<in> set ?toks" for t
  proof -
    from that obtain i where "i < length str" "token_start delims str i" "t = token_at delims str i"
      by auto
    then show ?thesis using token_nonempty_free [of i str delims] by simp
  qed
  have d: "?toks = []" if "set str \<subseteq> set delims"
  proof -
    have "\<not> token_start delims str i" if i: "i < length str" for i
    proof -
      from i have "str ! i \<in> set str" by (rule nth_mem)
      with \<open>set str \<subseteq> set delims\<close> show ?thesis by (auto simp: token_start_def)
    qed
    then show ?thesis by (simp add: filter_empty_conv)
  qed
  from r m e d show ?thesis by blast
qed

theorem readList_maximal_tokens_witness:
  "length ''.nes .NES'' < (2::nat) ^ 64
   \<and> readList ''.nes .NES'' readList_default_delims = Inr [''.nes'', ''.NES'']"
proof -
  have h: "length ''.nes .NES'' < (2::nat) ^ 64" by simp
  have "maximal_delimiter_free_substrings readList_default_delims ''.nes .NES'' = [''.nes'', ''.NES'']"
    by code_simp
  with readList_maximal_tokens [OF h, of readList_default_delims] h show ?thesis by simp
qed

section \<open>\<^verbatim>\<open>readList\<close> never throws\<close>

lemma substr_in_range: "pos < str_size str \<Longrightarrow> \<exists>tok. substr str pos n = Inr tok"
  by (simp add: substr_def)

lemma readList_loop_total:
  "(prevOff \<noteq> npos \<longrightarrow> prevOff < str_size str) \<Longrightarrow>
   off = find_first_of str delims prevOff \<Longrightarrow>
   \<exists>toks. readList_loop str delims prevOff off ret = Inr toks"
proof (induction str delims prevOff off ret rule: readList_loop.induct)
  case (1 str delims prevOff off ret)
  show ?case
  proof (cases "off \<noteq> npos \<or> prevOff \<noteq> npos")
    case False
    then show ?thesis by (subst readList_loop.simps) simp
  next
    case True
    with "1.prems"(2) have "prevOff \<noteq> npos" by (auto simp: find_at_npos)
    with "1.prems"(1) have "prevOff < str_size str" by simp
    then obtain tok where tok: "substr str prevOff (off - prevOff) = Inr tok"
      using substr_in_range by blast
    define p where "p = find_first_not_of str delims off"
    have inv: "p \<noteq> npos \<longrightarrow> p < str_size str"
      using find_first_not_of_range [of str delims off] by (auto simp: p_def)
    from "1.IH" [OF True tok p_def refl inv refl]
    obtain toks where "readList_loop str delims p (find_first_of str delims p) (ret @ [tok]) = Inr toks"
      by blast
    with True tok show ?thesis
      by (subst readList_loop.simps) (simp add: Let_def p_def)
  qed
qed

lemma readList_total: "\<exists>toks. readList str delims = Inr toks"
proof -
  define p where "p = find_first_not_of str delims 0"
  have "p \<noteq> npos \<longrightarrow> p < str_size str"
    using find_first_not_of_range [of str delims 0] by (auto simp: p_def)
  then have "\<exists>toks. readList_loop str delims p (find_first_of str delims p) [] = Inr toks"
    by (rule readList_loop_total) simp
  then show ?thesis by (simp add: readList_def Let_def p_def)
qed

section \<open>The directory scan\<close>

lemma populateFolder_loop_entry:
  "populateFolder_loop showHidden envData ((filePath, node) # rest) folder =
     populateFolder_loop showHidden envData rest
       (FileData (getType folder) (getPath folder)
          (getChildren folder @ scanned_entry_children showHidden envData (filePath, node)))"
  by (cases folder) (simp add: scanned_entry_children_def addChild_def Let_def)

lemma populateFolder_loop_children:
  "populateFolder_loop showHidden envData entries folder =
     FileData (getType folder) (getPath folder)
       (getChildren folder @ concat (map (scanned_entry_children showHidden envData) entries))"
proof (induction entries arbitrary: folder)
  case Nil
  then show ?case by simp
next
  case (Cons entry rest)
  obtain filePath node where entry: "entry = (filePath, node)" by (cases entry)
  show ?case
    unfolding entry populateFolder_loop_entry Cons by simp
qed

text \<open>
  \<^bold>\<open>Claim C1\<close> describes the scan of a folder whose path is an existing directory and no
  recursive symbolic link: one \<^verbatim>\<open>GAME\<close> child for each entry with a non-empty stem and a
  listed extension (hidden ones skipped unless \<^verbatim>\<open>ShowHiddenFiles\<close> is set), a recursive
  scan of each remaining entry that is a directory, added as a \<^verbatim>\<open>FOLDER\<close> child exactly
  when the scan left it a child, and no child for any other entry.  The code skips an
  entry with an empty stem before it looks at anything else, so a directory with an empty
  stem is not scanned; with that exception the description is what the code does: the
  children are added in the order of the entries, after the children the folder had.
\<close>

theorem populateFolder_children:
  assumes "\<not> (case canonical of None \<Rightarrow> False | Some c \<Rightarrow> prefix c (getPath folder))"
  shows "populateFolder showHidden envData (Directory canonical entries) folder =
           FileData (getType folder) (getPath folder)
             (getChildren folder
              @ concat (map (scanned_entry_children showHidden envData) entries))"
  using assms by (simp add: populateFolder_loop_children)

lemma populateFolder_demo:
  "populateFolder False demo_env demo_roms (FileData FOLDER ''/home/pi/roms/nes'' []) = demo_tree"
  by (simp add: demo_roms_def demo_env_def demo_tree_def stem_def extension_def filename_def
        isHidden_def addChild_def is_directory_def)

theorem populateFolder_children_witness:
  "\<not> (case None :: string option of None \<Rightarrow> False
        | Some c \<Rightarrow> prefix c (getPath (FileData FOLDER ''/home/pi/roms/nes'' [])))
   \<and> demo_roms = Directory None (dir_entries demo_roms)
   \<and> populateFolder False demo_env demo_roms (FileData FOLDER ''/home/pi/roms/nes'' [])
       = demo_tree
   \<and> concat (map (scanned_entry_children False demo_env) (dir_entries demo_roms))
       = getChildren demo_tree"
proof -
  have h: "\<not> (case None :: string option of None \<Rightarrow> False
        | Some c \<Rightarrow> prefix c (getPath (FileData FOLDER ''/home/pi/roms/nes'' [])))" by simp
  have d: "demo_roms = Directory None (dir_entries demo_roms)" by (simp add: demo_roms_def)
  note p = populateFolder_demo
  from populateFolder_children [OF h, of False demo_env "dir_entries demo_roms"] d p
  have "concat (map (scanned_entry_children False demo_env) (dir_entries demo_roms))
       = getChildren demo_tree"
    by (simp add: demo_tree_def)
  with h d p show ?thesis by simp
qed

text \<open>
  The description taken literally predicts a \<^verbatim>\<open>FOLDER\<close> child for a dot-named directory
  that holds a game; the code adds none, because the stem of such a name is empty.
\<close>

theorem populateFolder_skips_dot_directory:
  "populateFolder False demo_env dot_folder_roms (FileData FOLDER ''/home/pi/roms/nes'' [])
     = FileData FOLDER ''/home/pi/roms/nes'' []
   \<and> stem ''/home/pi/roms/nes/.cache'' = []
   \<and> extension ''/home/pi/roms/nes/.cache'' = ''.cache''
   \<and> concat (map (claimed_entry_children False demo_env) (dir_entries dot_folder_roms))
       = [FileData FOLDER ''/home/pi/roms/nes/.cache''
            [FileData GAME ''/home/pi/roms/nes/.cache/old.nes'' []]]
   \<and> getChildren (populateFolder False demo_env dot_folder_roms
                      (FileData FOLDER ''/home/pi/roms/nes'' []))
       \<noteq> concat (map (claimed_entry_children False demo_env) (dir_entries dot_folder_roms))"
  by (simp add: dot_folder_roms_def demo_env_def claimed_entry_children_def stem_def
        extension_def filename_def isHidden_def addChild_def is_directory_def)

section \<open>The constructor\<close>

text \<open>
  \<^bold>\<open>Claim C9.\<close>  For a system that is not a collection the constructor scans the ROM
  directory unless \<^verbatim>\<open>ParseGamelistOnly\<close> is set, then merges the gamelist unless
  \<^verbatim>\<open>IgnoreGamelist\<close> is set, then sorts the root folder by the first entry of
  \<^verbatim>\<open>FileSorts::SortTypes\<close> (a table that is not empty); for a collection system it runs
  none of the three steps and leaves a root folder without children.
\<close>

theorem SystemData_ctor_steps:
  assumes "SortTypes w \<noteq> []"
  shows "(let root0 = FileData FOLDER (mStartPath envData) [];
              this0 = \<lparr>mName = name, mFullName = fullName, mEnvData = envData,
                        mThemeFolder = themeFolder, mIsCollectionSystem = False,
                        mIsGameSystem = True, mRootFolder = root0\<rparr>;
              root1 = (if ParseGamelistOnly w then root0
                       else populateFolder (ShowHiddenFiles w) envData
                              (fs_status w (mStartPath envData)) root0);
              root2 = (if IgnoreGamelist w then root1
                       else parseGamelist w (this0\<lparr>mRootFolder := root1\<rparr>));
              root3 = sort_FileData w (hd (SortTypes w)) root2
          in SystemData_ctor w name fullName envData themeFolder False =
               Inr (this0\<lparr>mRootFolder := root3, mIsGameSystem := (name \<noteq> ''retropie'')\<rparr>,
                    (if ParseGamelistOnly w then [] else [ran_populateFolder])
                    @ (if IgnoreGamelist w then [] else [ran_parseGamelist])
                    @ [ran_sort (hd (SortTypes w))]))
       \<and> SystemData_ctor w name fullName envData themeFolder True =
            Inr (\<lparr>mName = name, mFullName = fullName, mEnvData = envData,
                   mThemeFolder = themeFolder, mIsCollectionSystem = True,
                   mIsGameSystem = (name \<noteq> ''retropie''),
                   mRootFolder = FileData FOLDER name []\<rparr>, [])"
proof -
  from assms obtain sortType rest where st: "SortTypes w = sortType # rest"
    by (cases "SortTypes w") auto
  show ?thesis
    by (simp add: SystemData_ctor_def setIsGameSystemStatus_def st Let_def)
qed

lemma SystemData_ctor_demo:
  "SystemData_ctor demo_world ''nes'' ''Nintendo Entertainment System'' demo_env ''nes'' False
     = Inr (demo_system, [ran_populateFolder, ran_parseGamelist, ran_sort ''filename, ascending''])"
proof -
  have w: "ParseGamelistOnly demo_world = False" "IgnoreGamelist demo_world = False"
    "ShowHiddenFiles demo_world = False" "fs_status demo_world ''/home/pi/roms/nes'' = demo_roms"
    "SortTypes demo_world = [''filename, ascending'', ''filename, descending'']"
    "parseGamelist demo_world = mRootFolder" "sort_FileData demo_world = (\<lambda>sortType folder. folder)"
    by (simp_all add: demo_world_def)
  have e: "mStartPath demo_env = ''/home/pi/roms/nes''" by (simp add: demo_env_def)
  show ?thesis
    by (simp add: SystemData_ctor_def Let_def setIsGameSystemStatus_def w e populateFolder_demo
          demo_system_def)
qed

theorem SystemData_ctor_steps_witness:
  "SortTypes demo_world \<noteq> []
   \<and> SystemData_ctor demo_world ''nes'' ''Nintendo Entertainment System'' demo_env ''nes'' False
       = Inr (demo_system,
              [ran_populateFolder, ran_parseGamelist, ran_sort ''filename, ascending''])
   \<and> SystemData_ctor (demo_world\<lparr>ParseGamelistOnly := True, IgnoreGamelist := True\<rparr>)
         ''nes'' ''Nintendo Entertainment System'' demo_env ''nes'' False
       = Inr (demo_system\<lparr>mRootFolder := FileData FOLDER ''/home/pi/roms/nes'' []\<rparr>,
              [ran_sort ''filename, ascending''])
   \<and> SystemData_ctor demo_world ''all'' ''all games'' demo_env ''auto-allgames'' True
       = Inr (\<lparr>mName = ''all'', mFullName = ''all games'', mEnvData = demo_env,
                mThemeFolder = ''auto-allgames'', mIsCollectionSystem = True,
                mIsGameSystem = True, mRootFolder = FileData FOLDER ''all'' []\<rparr>, [])"
proof -
  have h: "SortTypes demo_world \<noteq> []" by (simp add: demo_world_def)
  have h': "SortTypes (demo_world\<lparr>ParseGamelistOnly := True, IgnoreGamelist := True\<rparr>) \<noteq> []"
    by (simp add: demo_world_def)
  have w: "ParseGamelistOnly demo_world = False" "IgnoreGamelist demo_world = False"
    "ShowHiddenFiles demo_world = False" "fs_status demo_world ''/home/pi/roms/nes'' = demo_roms"
    "SortTypes demo_world = [''filename, ascending'', ''filename, descending'']"
    "parseGamelist demo_world = mRootFolder" "sort_FileData demo_world = (\<lambda>sortType folder. folder)"
    by (simp_all add: demo_world_def)
  have e: "mStartPath demo_env = ''/home/pi/roms/nes''" by (simp add: demo_env_def)
  from SystemData_ctor_steps [OF h, of demo_env "''nes''" "''Nintendo Entertainment System''" "''nes''"]
  have a: "SystemData_ctor demo_world ''nes'' ''Nintendo Entertainment System'' demo_env ''nes'' False
       = Inr (demo_system,
              [ran_populateFolder, ran_parseGamelist, ran_sort ''filename, ascending''])"
    by (simp add: Let_def w e populateFolder_demo demo_system_def)
  from SystemData_ctor_steps [OF h', of demo_env "''nes''" "''Nintendo Entertainment System''" "''nes''"]
  have b: "SystemData_ctor (demo_world\<lparr>ParseGamelistOnly := True, IgnoreGamelist := True\<rparr>)
         ''nes'' ''Nintendo Entertainment System'' demo_env ''nes'' False
       = Inr (demo_system\<lparr>mRootFolder := FileData FOLDER ''/home/pi/roms/nes'' []\<rparr>,
              [ran_sort ''filename, ascending''])"
    by (simp add: Let_def w e demo_system_def)
  from SystemData_ctor_steps [OF h, of demo_env "''all''" "''all games''" "''auto-allgames''"]
  have c: "SystemData_ctor demo_world ''all'' ''all games'' demo_env ''auto-allgames'' True
       = Inr (\<lparr>mName = ''all'', mFullName = ''all games'', mEnvData = demo_env,
                mThemeFolder = ''auto-allgames'', mIsCollectionSystem = True,
                mIsGameSystem = True, mRootFolder = FileData FOLDER ''all'' []\<rparr>, [])"
    by simp
  from h a b c show ?thesis by simp
qed

section \<open>\<^verbatim>\<open>loadConfig\<close>\<close>

declare loadConfig_loop.simps(2) [simp del]






text \<open>
  For any other entry the system is constructed; it is deleted if its root folder has
  no child and pushed onto the vector if it has one, and the loop goes on.
\<close>

lemma loadConfig_loop_constructs:
  assumes "\<not> entry_missing_field system"
    and "entry_system w system = Inr (newSys, steps)"
  shows "loadConfig_loop w (system # rest) v =
           loadConfig_loop w rest
             (if getChildren (mRootFolder newSys) = [] then v else v @ [newSys])"
proof -
  obtain extensions where e: "readList (node_extension system) readList_default_delims = Inr extensions"
    using readList_total by blast
  obtain platformStrs where p: "readList (node_platform system) readList_default_delims = Inr platformStrs"
    using readList_total by blast
  from assms(1) e have valid: "\<not> (node_name system = [] \<or> node_path system = [] \<or> extensions = []
      \<or> node_command system = [])"
    by (simp add: entry_missing_field_def)
  from assms(2) have c: "SystemData_ctor w (node_name system) (node_fullname system)
        \<lparr>mStartPath = expand_home w (node_path system), mSearchExtensions = extensions,
         mLaunchCommand = node_command system, mPlatformIds = platform_loop w platformStrs []\<rparr>
        (case node_theme system of None \<Rightarrow> node_name system | Some t \<Rightarrow> t) False
          = Inr (newSys, steps)"
    by (simp add: entry_system_def e p)
  from valid c show ?thesis
    by (simp add: loadConfig_loop.simps(2) e p Let_def)
qed





text \<open>The concrete installations.\<close>

lemma readList_demo_extension:
  "readList ''.nes .NES'' readList_default_delims = Inr [''.nes'', ''.NES'']"
proof -
  have "length ''.nes .NES'' < size_limit" by (simp add: size_limit_def)
  then have "readList ''.nes .NES'' readList_default_delims =
      Inr (map (token_at readList_default_delims ''.nes .NES'')
             (filter (token_start readList_default_delims ''.nes .NES'') [0..<length ''.nes .NES'']))"
    by (rule readList_tokens)
  also have "map (token_at readList_default_delims ''.nes .NES'')
             (filter (token_start readList_default_delims ''.nes .NES'') [0..<length ''.nes .NES''])
          = [''.nes'', ''.NES'']"
    by code_simp
  finally show ?thesis .
qed

lemma readList_demo_platform:
  "readList ''nes'' readList_default_delims = Inr [''nes'']"
proof -
  have "length ''nes'' < size_limit" by (simp add: size_limit_def)
  then have "readList ''nes'' readList_default_delims =
      Inr (map (token_at readList_default_delims ''nes'')
             (filter (token_start readList_default_delims ''nes'') [0..<length ''nes'']))"
    by (rule readList_tokens)
  also have "map (token_at readList_default_delims ''nes'')
             (filter (token_start readList_default_delims ''nes'') [0..<length ''nes''])
          = [''nes'']"
    by code_simp
  finally show ?thesis .
qed

lemma entry_system_demo:
  assumes "ParseGamelistOnly w = False" and "IgnoreGamelist w = False"
    and "ShowHiddenFiles w = False" and "getHomePath w = ''/home/pi''"
    and "fs_status w ''/home/pi/roms/nes'' = demo_roms"
    and "SortTypes w = [''filename, ascending'', ''filename, descending'']"
    and "parseGamelist w = mRootFolder" and "sort_FileData w = (\<lambda>sortType folder. folder)"
    and "getPlatformId w ''nes'' = PLATFORM_ID 7"
  shows "entry_system w demo_system_node
           = Inr (demo_system, [ran_populateFolder, ran_parseGamelist,
                                ran_sort ''filename, ascending''])"
  by (simp add: entry_system_def demo_system_node_def readList_demo_extension
        readList_demo_platform expand_home_def SystemData_ctor_def Let_def
        setIsGameSystemStatus_def assms populateFolder_demo [unfolded demo_env_def]
        demo_system_def demo_env_def)

lemma entry_missing_field_demo: "\<not> entry_missing_field demo_system_node"
  by (simp add: entry_missing_field_def demo_system_node_def readList_demo_extension)

lemma loadConfig_demo: "loadConfig demo_world [] = Inr (True, [demo_system], demo_world)"
proof -
  have cfg: "getConfigPath demo_world False = ''/home/pi/.emulationstation/es_systems.cfg''"
    by (simp add: getConfigPath_def demo_world_def fs_exists_def)
  have ex: "fs_exists demo_world ''/home/pi/.emulationstation/es_systems.cfg''"
    by (simp add: demo_world_def fs_exists_def)
  have ld: "load_file demo_world ''/home/pi/.emulationstation/es_systems.cfg''
              = Some (xml_document (Some [demo_system_node]))"
    by (simp add: demo_world_def)
  have ne: "getChildren (mRootFolder demo_system) \<noteq> []"
    by (simp add: demo_system_def demo_tree_def)
  have "entry_system demo_world demo_system_node
           = Inr (demo_system, [ran_populateFolder, ran_parseGamelist,
                                ran_sort ''filename, ascending''])"
    by (rule entry_system_demo) (simp_all add: demo_world_def)
  from loadConfig_loop_constructs [OF entry_missing_field_demo this, of "[]" "[]"] ne
  have loop: "loadConfig_loop demo_world [demo_system_node] [] = Inr [demo_system]"
    by simp
  have coll: "loadCollectionSystems demo_world [demo_system] = [demo_system]"
    by (simp add: demo_world_def)
  show ?thesis
    by (simp add: loadConfig_def deleteSystems_def cfg ex ld loop coll)
qed













section \<open>Theme and gamelist paths\<close>

text \<open>
  \<^bold>\<open>Claim C6.\<close>  \<^verbatim>\<open>getThemePath\<close> resolves the theme in three steps: the file
  \<^verbatim>\<open>theme.xml\<close> in the root folder if it exists; otherwise the system theme of the
  current theme set if that file exists; otherwise \<^verbatim>\<open>theme.xml\<close> two directory levels
  above the theme-set path, whether or not it exists.
\<close>

theorem getThemePath_three_steps:
  "(let local = path_append (getPath (mRootFolder this)) ''theme.xml'';
        from_set = getThemeFromCurrentSet w (mThemeFolder this);
        fallback = path_append (parent_path w (parent_path w from_set)) ''theme.xml''
    in (fs_exists w local \<longrightarrow> getThemePath w this = local)
     \<and> (\<not> fs_exists w local \<and> fs_exists w from_set \<longrightarrow> getThemePath w this = from_set)
     \<and> (\<not> fs_exists w local \<and> \<not> fs_exists w from_set \<longrightarrow> getThemePath w this = fallback))"
  by (simp add: getThemePath_def Let_def)

theorem getThemePath_three_steps_witness:
  "\<not> fs_exists demo_world (path_append (getPath (mRootFolder demo_system)) ''theme.xml'')
   \<and> fs_exists demo_world (getThemeFromCurrentSet demo_world (mThemeFolder demo_system))
   \<and> getThemePath demo_world demo_system = ''/etc/emulationstation/themes/carbon/nes/theme.xml''
   \<and> \<not> fs_exists demo_world (getThemeFromCurrentSet demo_world ''snes'')
   \<and> getThemePath demo_world (demo_system\<lparr>mThemeFolder := ''snes''\<rparr>)
       = ''/etc/emulationstation/themes/carbon/theme.xml''
   \<and> \<not> fs_exists demo_world ''/etc/emulationstation/themes/carbon/theme.xml''"
  using getThemePath_three_steps [of demo_system demo_world]
    getThemePath_three_steps [of "demo_system\<lparr>mThemeFolder := ''snes''\<rparr>" demo_world]
  by (simp add: Let_def demo_world_def demo_system_def demo_tree_def fs_exists_def path_append_def)

text \<open>
  \<^bold>\<open>Claim C7.\<close>  \<^verbatim>\<open>getGamelistPath\<close> returns \<^verbatim>\<open>gamelist.xml\<close> in the root folder if
  that file exists; otherwise the per-system path under the home directory whenever
  \<open>forWrite\<close> holds (its parent directory is created first) or that file exists; and
  the path under \<^verbatim>\<open>/etc/emulationstation\<close> only when \<open>forWrite\<close> is false and neither
  file exists.  \<^verbatim>\<open>hasGamelist\<close> holds exactly when the path returned for reading exists.
\<close>

theorem getGamelistPath_order:
  "(let in_root = path_append (getPath (mRootFolder this)) ''gamelist.xml'';
        in_home = getHomePath w @ ''/.emulationstation/gamelists/'' @ mName this @ ''/gamelist.xml'';
        in_etc = ''/etc/emulationstation/gamelists/'' @ mName this @ ''/gamelist.xml''
    in (fs_exists w in_root \<longrightarrow> getGamelistPath w this forWrite = (in_root, []))
     \<and> (\<not> fs_exists w in_root \<and> forWrite \<longrightarrow>
          getGamelistPath w this forWrite = (in_home, [parent_path w in_home]))
     \<and> (\<not> fs_exists w in_root \<and> \<not> forWrite \<and> fs_exists w in_home \<longrightarrow>
          getGamelistPath w this forWrite = (in_home, []))
     \<and> (\<not> fs_exists w in_root \<and> \<not> forWrite \<and> \<not> fs_exists w in_home \<longrightarrow>
          getGamelistPath w this forWrite = (in_etc, []))
     \<and> (hasGamelist w this \<longleftrightarrow> fs_exists w (fst (getGamelistPath w this False))))"
  by (simp add: getGamelistPath_def hasGamelist_def Let_def)

theorem getGamelistPath_order_witness:
  "\<not> fs_exists demo_world (path_append (getPath (mRootFolder demo_system)) ''gamelist.xml'')
   \<and> getGamelistPath demo_world demo_system True
       = (''/home/pi/.emulationstation/gamelists/nes/gamelist.xml'',
          [''/home/pi/.emulationstation/gamelists/nes''])
   \<and> \<not> fs_exists demo_world ''/home/pi/.emulationstation/gamelists/nes/gamelist.xml''
   \<and> getGamelistPath demo_world demo_system False
       = (''/etc/emulationstation/gamelists/nes/gamelist.xml'', [])
   \<and> \<not> hasGamelist demo_world demo_system"
  using getGamelistPath_order [of demo_system demo_world True]
    getGamelistPath_order [of demo_system demo_world False]
  by (simp add: Let_def demo_world_def demo_system_def demo_tree_def fs_exists_def path_append_def)

section \<open>Counts and random selection\<close>

lemma displayed_files_le:
  "length (getFilesRecursive shown typeMask True folder)
   \<le> length (getFilesRecursive shown typeMask False folder)"
proof (induction folder)
  case (FileData t p children)
  have "length ((if getType c = typeMask \<and> (\<not> True \<or> shown c) then [c] else [])
                 @ getFilesRecursive shown typeMask True c)
        \<le> length ((if getType c = typeMask \<and> (\<not> False \<or> shown c) then [c] else [])
                 @ getFilesRecursive shown typeMask False c)"
    if "c \<in> set children" for c
    using FileData [OF that] by simp
  then show ?case
    by (simp add: length_concat comp_def sum_list_mono)
qed

text \<open>
  \<^bold>\<open>Claim C8.\<close>  \<^verbatim>\<open>getGameCount\<close> is the length of the unfiltered recursive list of
  games under the root folder, \<^verbatim>\<open>getDisplayedGameCount\<close> the length of the
  displayed-only list, and the displayed count never exceeds the game count (for every
  tree whose number of games fits the \<^verbatim>\<open>unsigned int\<close> the counts are returned in).
\<close>

theorem displayed_count_le_game_count:
  assumes "length (getFilesRecursive shown GAME False (mRootFolder this)) < 2 ^ 32"
  shows "unat (getGameCount shown this)
           = length (getFilesRecursive shown GAME False (mRootFolder this))
       \<and> unat (getDisplayedGameCount shown this)
           = length (getFilesRecursive shown GAME True (mRootFolder this))
       \<and> getDisplayedGameCount shown this \<le> getGameCount shown this"
proof -
  let ?all = "getFilesRecursive shown GAME False (mRootFolder this)"
  let ?disp = "getFilesRecursive shown GAME True (mRootFolder this)"
  have le: "length ?disp \<le> length ?all" by (rule displayed_files_le)
  from assms have a: "unat (of_nat (length ?all) :: 32 word) = length ?all"
    by (simp add: unat_of_nat)
  from le assms have "length ?disp < 2 ^ 32" by simp
  then have d: "unat (of_nat (length ?disp) :: 32 word) = length ?disp"
    by (simp add: unat_of_nat)
  from a d le show ?thesis
    by (simp add: getGameCount_def getDisplayedGameCount_def word_le_nat_alt)
qed

theorem displayed_count_le_game_count_witness:
  "length (getFilesRecursive (\<lambda>f. getPath f = ''/home/pi/roms/nes/mario.nes'') GAME False
             (mRootFolder demo_system)) < (2::nat) ^ 32
   \<and> getGameCount (\<lambda>f. getPath f = ''/home/pi/roms/nes/mario.nes'') demo_system = 2
   \<and> getDisplayedGameCount (\<lambda>f. getPath f = ''/home/pi/roms/nes/mario.nes'') demo_system = 1
   \<and> getDisplayedGameCount (\<lambda>f. getPath f = ''/home/pi/roms/nes/mario.nes'') demo_system
       \<le> getGameCount (\<lambda>f. getPath f = ''/home/pi/roms/nes/mario.nes'') demo_system"
proof -
  let ?shown = "\<lambda>f. getPath f = ''/home/pi/roms/nes/mario.nes''"
  have h: "length (getFilesRecursive ?shown GAME False (mRootFolder demo_system)) < (2::nat) ^ 32"
    by (simp add: demo_system_def demo_tree_def)
  have "getGameCount ?shown demo_system = 2" "getDisplayedGameCount ?shown demo_system = 1"
    by (simp_all add: getGameCount_def getDisplayedGameCount_def demo_system_def demo_tree_def)
  with displayed_count_le_game_count [OF h] h show ?thesis by simp
qed

lemma random_target_in_range:
  assumes mono: "mono fl" and exact: "\<And>k :: nat. k < 2 ^ 32 \<Longrightarrow> fl (real k) = real k"
    and r: "r \<le> RAND_MAX" "0 < RAND_MAX"
    and n: "0 < n" "n < 2 ^ 31"
  shows "\<exists>target. random_target fl RAND_MAX r (of_nat n) = Inr target
           \<and> 0 \<le> target \<and> nat target < n"
proof -
  have fl0: "fl 0 = 0" using exact [of 0] by simp
  have fl1: "fl 1 = 1" using exact [of 1] by simp
  from n have n32: "n - 1 < 2 ^ 32" by simp
  have fln: "fl (real (n - 1)) = real (n - 1)" using n32 by (rule exact)
  from n have "(of_nat n :: 32 word) - 1 = of_nat (n - 1)" by (simp add: of_nat_diff)
  with n32 have total: "unat ((of_nat n :: 32 word) - 1) = n - 1" by (simp add: unat_of_nat)
  define q where "q = fl (real r / real RAND_MAX)"
  define x where "x = fl (q * real (n - 1))"
  have "0 \<le> real r / real RAND_MAX" by (rule divide_nonneg_nonneg) simp_all
  moreover from r have "real r \<le> real RAND_MAX" "0 < real RAND_MAX" by linarith+
  then have "real r / real RAND_MAX \<le> 1" by (simp only: divide_le_eq_1_pos)
  ultimately have "0 \<le> real r / real RAND_MAX" "real r / real RAND_MAX \<le> 1" by blast+
  then have "fl 0 \<le> q" "q \<le> fl 1" unfolding q_def using mono by (blast dest: monoD)+
  then have q: "0 \<le> q" "q \<le> 1" by (simp_all only: fl0 fl1)
  then have "0 \<le> q * real (n - 1)" "q * real (n - 1) \<le> real (n - 1)"
    by (simp_all add: mult_left_le_one_le)
  then have "fl 0 \<le> x" "x \<le> fl (real (n - 1))" unfolding x_def using mono by (blast dest: monoD)+
  then have x: "0 \<le> x" "x \<le> real (n - 1)" by (simp_all only: fl0 fln)
  define t where "t = std_round x"
  from x(1) have t_def': "t = \<lfloor>x + 1 / 2\<rfloor>" by (simp add: t_def std_round_def)
  from x(1) have t0: "0 \<le> t" unfolding t_def' by simp
  from x(2) n(1) have "x + 1 / 2 < real n" by simp
  then have "t < int n" unfolding t_def' by (simp add: floor_less_iff)
  with t0 n(2) have "to_int t = Inr t" "nat t < n" by (simp_all add: to_int_def)
  moreover have "random_target fl RAND_MAX r (of_nat n) = to_int t"
    unfolding random_target_def total t_def x_def q_def ..
  ultimately show ?thesis using t0 by simp
qed

text \<open>
  \<^bold>\<open>Claim C4.\<close>  \<^verbatim>\<open>getRandomGame\<close> returns \<^verbatim>\<open>NULL\<close> exactly when the recursive list of
  displayed games under the root folder is empty, and otherwise an element of that
  list: the index it computes lies within the list, so \<^verbatim>\<open>at\<close> does not throw.  This
  holds for every value of \<^verbatim>\<open>std::rand()\<close> between \<open>0\<close> and \<^verbatim>\<open>RAND_MAX\<close>, for every
  rounding of the two floating-point operations that is monotone and exact on the
  32-bit integers (as round-to-nearest on \<^verbatim>\<open>double\<close> is), and for every list whose
  indices fit an \<^verbatim>\<open>int\<close>.
\<close>

theorem getRandomGame_null_iff_empty:
  assumes "mono fl" and "\<And>k :: nat. k < 2 ^ 32 \<Longrightarrow> fl (real k) = real k"
    and "r \<le> RAND_MAX" and "0 < RAND_MAX"
    and "length list < 2 ^ 31"
  shows "(getRandomGame fl RAND_MAX r list = Inr None \<longleftrightarrow> list = [])
       \<and> (list \<noteq> [] \<longrightarrow>
            (\<exists>game \<in> set list. getRandomGame fl RAND_MAX r list = Inr (Some game)))"
proof (cases "list = []")
  case True
  then show ?thesis by (simp add: getRandomGame_def)
next
  case False
  then have n: "0 < length list" by simp
  from assms(5) have "length list < 2 ^ 32" by simp
  then have "unat (of_nat (length list) :: 32 word) = length list" by (simp add: unat_of_nat)
  with n have nz: "(of_nat (length list) :: 32 word) \<noteq> 0" by (metis less_numeral_extra(3) unat_0)
  from random_target_in_range [OF assms(1,2,3,4) n assms(5)]
  obtain target where t: "random_target fl RAND_MAX r (of_nat (length list)) = Inr target"
    "0 \<le> target" "nat target < length list" by blast
  then have "getRandomGame fl RAND_MAX r list = Inr (Some (list ! nat target))"
    using nz by (simp add: getRandomGame_def Let_def)
  moreover from t(3) have "list ! nat target \<in> set list" by (rule nth_mem)
  ultimately show ?thesis using False by auto
qed

theorem getRandomGame_null_iff_empty_witness:
  "mono (\<lambda>x :: real. x) \<and> (32767 :: nat) \<le> 32767 \<and> (0 :: nat) < 32767
   \<and> length [FileData GAME ''/home/pi/roms/nes/mario.nes'' [],
               FileData GAME ''/home/pi/roms/nes/hacks/kaizo.NES'' []] < (2 :: nat) ^ 31
   \<and> getRandomGame (\<lambda>x. x) 32767 32767
         [FileData GAME ''/home/pi/roms/nes/mario.nes'' [],
          FileData GAME ''/home/pi/roms/nes/hacks/kaizo.NES'' []]
       = Inr (Some (FileData GAME ''/home/pi/roms/nes/hacks/kaizo.NES'' []))
   \<and> getRandomGame (\<lambda>x. x) 32767 32767 [] = Inr None"
proof -
  let ?list = "[FileData GAME ''/home/pi/roms/nes/mario.nes'' [],
                FileData GAME ''/home/pi/roms/nes/hacks/kaizo.NES'' []]"
  have m: "mono (\<lambda>x :: real. x)" by (simp add: mono_def)
  have e: "\<And>k :: nat. k < 2 ^ 32 \<Longrightarrow> (\<lambda>x :: real. x) (real k) = real k" by simp
  have l: "length ?list < (2 :: nat) ^ 31" by simp
  have l': "length ([] :: FileData list) < (2 :: nat) ^ 31" by simp
  have r: "(32767 :: nat) \<le> 32767" "(0 :: nat) < 32767" by simp_all
  have v: "getRandomGame (\<lambda>x. x) 32767 32767 ?list
             = Inr (Some (FileData GAME ''/home/pi/roms/nes/hacks/kaizo.NES'' []))"
    by (simp add: getRandomGame_def random_target_def std_round_def to_int_def)
  from getRandomGame_null_iff_empty [of "\<lambda>x. x" 32767 32767 ?list, OF m e r l]
    getRandomGame_null_iff_empty [of "\<lambda>x. x" 32767 32767 "[]", OF m e r l']
    m r l v
  show ?thesis by simp
qed

text \<open>
  \<^bold>\<open>Claim C5\<close> says that \<^verbatim>\<open>getRandomSystem\<close> always reaches a \<^verbatim>\<open>return\<close>, also on an
  empty vector.  On the empty vector the selection loop has nothing to return: whatever
  the random number and the rounding, the function either converts a number that no
  \<^verbatim>\<open>int\<close> holds or flows off its end without a value.
\<close>

theorem getRandomSystem_empty_vector_no_return:
  "getRandomSystem fl RAND_MAX r [] = Inl missing_return
   \<or> getRandomSystem fl RAND_MAX r [] = Inl float_to_int_overflow"
  by (simp add: getRandomSystem_def random_target_def to_int_def)

lemma count_game_systems_filter:
  "count_game_systems v n = n + of_nat (length (filter mIsGameSystem v))"
  by (induction v arbitrary: n) simp_all

lemma select_game_system_nth:
  "0 \<le> target \<Longrightarrow> nat target < length (filter mIsGameSystem v) \<Longrightarrow>
   select_game_system v target = Inr (filter mIsGameSystem v ! nat target)"
proof (induction v arbitrary: target)
  case Nil
  then show ?case by simp
next
  case (Cons s rest)
  show ?case
  proof (cases "mIsGameSystem s")
    case False
    with Cons show ?thesis by simp
  next
    case True
    show ?thesis
    proof (cases "target > 0")
      case False
      with Cons.prems True show ?thesis by simp
    next
      case pos: True
      then have n: "nat target = Suc (nat (target - 1))" by simp
      from pos Cons.prems True have "0 \<le> target - 1" "nat (target - 1) < length (filter mIsGameSystem rest)"
        by simp_all
      from Cons.IH [OF this] True pos show ?thesis by (simp add: n)
    qed
  qed
qed

text \<open>
  With at least one game system in the vector (and fewer than \<open>2\<^sup>3\<^sup>1\<close> of them) the
  function does return one of them, under the same assumptions on the random number and
  the rounding as for \<^verbatim>\<open>getRandomGame\<close>; the defect is confined to the vectors without a
  game system.
\<close>

lemma getRandomSystem_returns_game_system:
  assumes "mono fl" and "\<And>k :: nat. k < 2 ^ 32 \<Longrightarrow> fl (real k) = real k"
    and "r \<le> RAND_MAX" and "0 < RAND_MAX"
    and "filter mIsGameSystem sSystemVector \<noteq> []"
    and "length (filter mIsGameSystem sSystemVector) < 2 ^ 31"
  shows "\<exists>s \<in> set sSystemVector. mIsGameSystem s
           \<and> getRandomSystem fl RAND_MAX r sSystemVector = Inr s"
proof -
  let ?games = "filter mIsGameSystem sSystemVector"
  from assms(5) have n: "0 < length ?games" by simp
  have total: "count_game_systems sSystemVector 0 = of_nat (length ?games)"
    by (simp add: count_game_systems_filter)
  from random_target_in_range [OF assms(1,2,3,4) n assms(6)]
  obtain target where t: "random_target fl RAND_MAX r (of_nat (length ?games)) = Inr target"
    "0 \<le> target" "nat target < length ?games" by blast
  from select_game_system_nth [OF t(2,3)]
  have "getRandomSystem fl RAND_MAX r sSystemVector = Inr (?games ! nat target)"
    by (simp add: getRandomSystem_def total t(1))
  moreover from t(3) have "?games ! nat target \<in> set ?games" by (rule nth_mem)
  ultimately show ?thesis by auto
qed

lemma getRandomSystem_returns_game_system_demo:
  "mono (\<lambda>x :: real. x) \<and> (5 :: nat) \<le> 32767 \<and> (0 :: nat) < 32767
   \<and> filter mIsGameSystem [demo_system] \<noteq> []
   \<and> length (filter mIsGameSystem [demo_system]) < (2 :: nat) ^ 31
   \<and> getRandomSystem (\<lambda>x. x) 32767 5 [demo_system] = Inr demo_system"
proof -
  have m: "mono (\<lambda>x :: real. x)" by (simp add: mono_def)
  have e: "\<And>k :: nat. k < 2 ^ 32 \<Longrightarrow> (\<lambda>x :: real. x) (real k) = real k" by simp
  have r: "(5 :: nat) \<le> 32767" "(0 :: nat) < 32767" by simp_all
  have g: "filter mIsGameSystem [demo_system] \<noteq> []" by (simp add: demo_system_def)
  have l: "length (filter mIsGameSystem [demo_system]) < (2 :: nat) ^ 31" by simp
  from getRandomSystem_returns_game_system [OF m e r g l] m r g l
  show ?thesis by simp
qed

end
